theory Spec2Isabelle
  imports Complex_Main "HOL-Library.Multiset" "HOL-Library.Char_ord" "HOL-Library.List_Lexorder"
begin

section \<open>Python values, exceptions and data frames\<close>

text \<open>
  The module under study (\<^verbatim>\<open>pure_ocean_breeze/data/tools.py\<close>) is a collection of
  stateless functions over pandas data frames.  A cell of a frame is an arbitrary Python
  object; the ones that matter here are the missing-data marker \<^verbatim>\<open>np.nan\<close>, numbers,
  time stamps, strings, and lists or tuples of further objects.  Floating point numbers
  are idealised as reals.  Column labels and index names are Python objects as well.
\<close>

datatype cell = NaN | Num real | Date nat | Str string | Seq "cell list"

text \<open>The exception classes that the modelled code paths can raise.\<close>

datatype error = TypeError | ValueError | IndexError | KeyError

text \<open>
  A data frame: the names of its index and of its column axis (\<open>None\<close> when unnamed),
  its column labels in order, and its rows in order, each row carrying its index label
  and its cells.
\<close>

record frame =
  index_name :: "cell option"
  columns_name :: "cell option"
  columns :: "cell list"
  rows :: "(cell \<times> cell list) list"

text \<open>Sequencing of computations that may raise: the first exception wins.\<close>

definition bind_err :: "error + 'a \<Rightarrow> ('a \<Rightarrow> error + 'b) \<Rightarrow> error + 'b" where
  "bind_err m f = (case m of Inl e \<Rightarrow> Inl e | Inr x \<Rightarrow> f x)"

fun map_err :: "('a \<Rightarrow> error + 'b) \<Rightarrow> 'a list \<Rightarrow> error + 'b list" where
  "map_err f [] = Inr []"
| "map_err f (x # xs) =
     (case f x of
        Inl e \<Rightarrow> Inl e
      | Inr y \<Rightarrow> (case map_err f xs of Inl e \<Rightarrow> Inl e | Inr ys \<Rightarrow> Inr (y # ys)))"

section \<open>\<^verbatim>\<open>get_value\<close>\<close>

text \<open>
  \<^verbatim>\<open>x[n]\<close> for an integer \<^verbatim>\<open>n\<close>: lists, tuples and strings are indexed, negative indices
  counting from the end, and raise \<^verbatim>\<open>IndexError\<close> out of range; numbers, time stamps and
  \<^verbatim>\<open>np.nan\<close> are not subscriptable and raise \<^verbatim>\<open>TypeError\<close>.
\<close>

definition py_index :: "'a list \<Rightarrow> int \<Rightarrow> error + 'a" where
  "py_index xs n =
     (let len = int (length xs); j = (if n < 0 then len + n else n)
      in if 0 \<le> j \<and> j < len then Inr (xs ! nat j) else Inl IndexError)"

fun getitem :: "cell \<Rightarrow> int \<Rightarrow> error + cell" where
  "getitem (Seq xs) n = py_index xs n"
| "getitem (Str s) n = (case py_index s n of Inl e \<Rightarrow> Inl e | Inr c \<Rightarrow> Inr (Str [c]))"
| "getitem NaN n = Inl TypeError"
| "getitem (Num r) n = Inl TypeError"
| "getitem (Date d) n = Inl TypeError"

text \<open>Every exception class of the model derives from \<^verbatim>\<open>Exception\<close>.\<close>

fun is_Exception :: "error \<Rightarrow> bool" where
  "is_Exception TypeError = True"
| "is_Exception ValueError = True"
| "is_Exception IndexError = True"
| "is_Exception KeyError = True"

text \<open>
  \<^verbatim>\<open>get_value_single\<close>: \<^verbatim>\<open>try: return x[n]\<close>, \<^verbatim>\<open>except Exception: return np.nan\<close>.
\<close>

definition get_value_single :: "cell \<Rightarrow> int \<Rightarrow> error + cell" where
  "get_value_single x n =
     (case getitem x n of
        Inr v \<Rightarrow> Inr v
      | Inl e \<Rightarrow> if is_Exception e then Inr NaN else Inl e)"

text \<open>\<^verbatim>\<open>df.applymap(f)\<close>: apply \<^verbatim>\<open>f\<close> to every cell, keeping index and columns.\<close>

definition applymap :: "(cell \<Rightarrow> error + cell) \<Rightarrow> frame \<Rightarrow> error + frame" where
  "applymap f df =
     (case map_err (\<lambda>(i, r). case map_err f r of Inl e \<Rightarrow> Inl e | Inr r' \<Rightarrow> Inr (i, r')) (rows df) of
        Inl e \<Rightarrow> Inl e
      | Inr rs \<Rightarrow> Inr (df\<lparr>rows := rs\<rparr>))"

definition get_value :: "frame \<Rightarrow> int \<Rightarrow> error + frame" where
  "get_value df n = applymap (\<lambda>x. get_value_single x n) df"

text \<open>The extracted cell: \<^verbatim>\<open>x[n]\<close> when the extraction succeeds, \<^verbatim>\<open>np.nan\<close> when it raises.\<close>

definition nth_or_nan :: "cell \<Rightarrow> int \<Rightarrow> cell" where
  "nth_or_nan x n = (case getitem x n of Inr v \<Rightarrow> v | Inl e \<Rightarrow> NaN)"

section \<open>\<^verbatim>\<open>drop_duplicates_index\<close>\<close>

text \<open>
  \<^verbatim>\<open>df.reset_index()\<close>: the index becomes the first column, labelled with the index name,
  or with \<^verbatim>\<open>"index"\<close> for an unnamed index (\<^verbatim>\<open>"level_0"\<close> when a column \<^verbatim>\<open>"index"\<close> exists);
  inserting a label that is already a column raises \<^verbatim>\<open>ValueError\<close>.  The new index is
  the default range \<open>0, 1, 2, \<dots>\<close>.
\<close>

definition reset_index :: "frame \<Rightarrow> error + frame" where
  "reset_index df =
     (let name = (case index_name df of
                    Some n \<Rightarrow> n
                  | None \<Rightarrow> if Str ''index'' \<in> set (columns df) then Str ''level_0''
                            else Str ''index'')
      in if name \<in> set (columns df) then Inl ValueError
         else Inr \<lparr>index_name = None, columns_name = columns_name df, columns = name # columns df,
                   rows = map (\<lambda>(p, (i, r)). (Num (real p), i # r)) (enumerate 0 (rows df))\<rparr>)"

text \<open>\<^verbatim>\<open>df.rename(columns={old: new})\<close>: every column labelled \<^verbatim>\<open>old\<close> is relabelled.\<close>

definition rename_column :: "cell \<Rightarrow> cell \<Rightarrow> frame \<Rightarrow> frame" where
  "rename_column old new df = df\<lparr>columns := map (\<lambda>c. if c = old then new else c) (columns df)\<rparr>"

text \<open>
  The cell of a row at a position (missing when the row is too short), a list without
  the element at a position, and the positions of the columns that carry one of some
  labels.
\<close>

definition cell_at :: "cell list \<Rightarrow> nat \<Rightarrow> cell" where
  "cell_at r j = (if j < length r then r ! j else NaN)"

definition drop_nth :: "nat \<Rightarrow> 'a list \<Rightarrow> 'a list" where
  "drop_nth j xs = take j xs @ drop (Suc j) xs"

definition label_positions :: "cell list \<Rightarrow> cell list \<Rightarrow> nat list" where
  "label_positions labs cols = filter (\<lambda>j. cols ! j \<in> set labs) [0 ..< length cols]"

text \<open>
  \<^verbatim>\<open>duplicated(keep="first")\<close> walks the keys in row order and marks a key that has been
  seen before; \<^verbatim>\<open>drop_duplicates\<close> keeps the unmarked rows.  The key of a row consists of
  its cells in all the columns whose label is in \<^verbatim>\<open>subset\<close>, so that two columns with one
  label are compared jointly; a label of \<^verbatim>\<open>subset\<close> that is no column raises \<^verbatim>\<open>KeyError\<close>.
\<close>

fun duplicated_from :: "'k list \<Rightarrow> 'k list \<Rightarrow> bool list" where
  "duplicated_from seen [] = []"
| "duplicated_from seen (k # ks) = (k \<in> set seen) # duplicated_from (k # seen) ks"

definition duplicated :: "'k list \<Rightarrow> bool list" where
  "duplicated ks = duplicated_from [] ks"

definition unmarked :: "bool list \<Rightarrow> 'a list \<Rightarrow> 'a list" where
  "unmarked marks xs = map snd (filter (\<lambda>(d, x). \<not> d) (zip marks xs))"

definition subset_key :: "cell list \<Rightarrow> cell list \<Rightarrow> cell list \<Rightarrow> cell list" where
  "subset_key labs cols r = map (cell_at r) (label_positions labs cols)"

definition drop_duplicates :: "cell list \<Rightarrow> frame \<Rightarrow> error + frame" where
  "drop_duplicates labs df =
     (if \<not> set labs \<subseteq> set (columns df) then Inl KeyError
      else Inr (df\<lparr>rows :=
                  unmarked (duplicated (map (\<lambda>(i, r). subset_key labs (columns df) r) (rows df)))
                    (rows df)\<rparr>))"

text \<open>
  \<^verbatim>\<open>df.set_index(label)\<close>: the column with that label becomes the index and is removed
  from the data; a missing label raises \<^verbatim>\<open>KeyError\<close>.  When several columns carry the
  label, pandas takes them together as a block of values.  If the columns have one
  numeric dtype, the block is a two-dimensional array, which is no index: \<^verbatim>\<open>ValueError\<close>.
  Otherwise each row of the block becomes a tuple, the index consists of these tuples,
  and all the columns with the label are removed.  The frames of the model do not record
  dtypes, so which of the two happens is a parameter, \<open>two_dim\<close>, that is asked about the
  frame.
\<close>

definition other_cells :: "cell \<Rightarrow> cell list \<Rightarrow> cell list \<Rightarrow> cell list" where
  "other_cells lab cols r = map snd (filter (\<lambda>(c, v). c \<noteq> lab) (zip cols r))"

definition set_index :: "(frame \<Rightarrow> bool) \<Rightarrow> cell \<Rightarrow> frame \<Rightarrow> error + frame" where
  "set_index two_dim lab df =
     (case label_positions [lab] (columns df) of
        [] \<Rightarrow> Inl KeyError
      | [j] \<Rightarrow> Inr \<lparr>index_name = Some lab, columns_name = columns_name df,
                    columns = drop_nth j (columns df),
                    rows = map (\<lambda>(i, r). (cell_at r j, drop_nth j r)) (rows df)\<rparr>
      | js \<Rightarrow> if two_dim df then Inl ValueError
              else Inr \<lparr>index_name = Some lab, columns_name = columns_name df,
                        columns = filter (\<lambda>c. c \<noteq> lab) (columns df),
                        rows = map (\<lambda>(i, r). (Seq (map (cell_at r) js),
                                                other_cells lab (columns df) r))
                                 (rows df)\<rparr>)"

text \<open>
  The function itself:
  \<^verbatim>\<open>new = new.reset_index()\<close>,
  \<^verbatim>\<open>new = new.rename(columns={list(new.columns)[0]: "date"})\<close>,
  \<^verbatim>\<open>new = new.drop_duplicates(subset=["date"], keep="first")\<close>,
  \<^verbatim>\<open>new = new.set_index("date")\<close>.
\<close>

definition drop_duplicates_index :: "(frame \<Rightarrow> bool) \<Rightarrow> frame \<Rightarrow> error + frame" where
  "drop_duplicates_index two_dim new =
     bind_err (reset_index new) (\<lambda>new1.
       case columns new1 of
         [] \<Rightarrow> Inl IndexError
       | first # _ \<Rightarrow>
           bind_err (drop_duplicates [Str ''date''] (rename_column first (Str ''date'') new1))
             (set_index two_dim (Str ''date'')))"

text \<open>
  The label under which \<^verbatim>\<open>reset_index\<close> inserts the index, and the tables on which no
  label collides: neither that label nor \<^verbatim>\<open>"date"\<close> is the label of a data column.
\<close>

definition index_label :: "frame \<Rightarrow> cell" where
  "index_label df =
     (case index_name df of
        Some n \<Rightarrow> n
      | None \<Rightarrow> if Str ''index'' \<in> set (columns df) then Str ''level_0'' else Str ''index'')"

definition no_label_clash :: "frame \<Rightarrow> bool" where
  "no_label_clash df =
     (index_label df \<notin> set (columns df) \<and> Str ''date'' \<notin> set (columns df))"

text \<open>The first occurrences of a list under a key, in their original order.\<close>

definition keep_first :: "('a \<Rightarrow> 'k) \<Rightarrow> 'a list \<Rightarrow> 'a list" where
  "keep_first key xs = unmarked (duplicated (map key xs)) xs"

section \<open>\<^verbatim>\<open>merge_many\<close>\<close>

text \<open>The cell of a row under a column label (the first column so labelled).\<close>

definition column_cell :: "cell list \<Rightarrow> cell \<Rightarrow> cell list \<Rightarrow> cell" where
  "column_cell cols lab r = (case map_of (zip cols r) lab of Some v \<Rightarrow> v | None \<Rightarrow> NaN)"

text \<open>
  \<^verbatim>\<open>i.stack().reset_index()\<close> on a wide panel: one row (index label, column label, value)
  for every cell that is not missing, row by row; the three columns are labelled with
  the names of the two axes (\<^verbatim>\<open>"level_0"\<close>, \<^verbatim>\<open>"level_1"\<close> for an unnamed axis) and \<^verbatim>\<open>0\<close>.
  Inserting a label twice raises \<^verbatim>\<open>ValueError\<close>.
\<close>

definition stack_reset_index :: "frame \<Rightarrow> error + frame" where
  "stack_reset_index df =
     (let n0 = (case index_name df of Some n \<Rightarrow> n | None \<Rightarrow> Str ''level_0'');
          n1 = (case columns_name df of Some n \<Rightarrow> n | None \<Rightarrow> Str ''level_1'');
          long = concat (map (\<lambda>(i, r). map (\<lambda>(c, v). [i, c, v])
                                           (filter (\<lambda>(c, v). v \<noteq> NaN) (zip (columns df) r)))
                             (rows df))
      in if \<not> distinct [n0, n1, Num 0] then Inl ValueError
         else Inr \<lparr>index_name = None, columns_name = None, columns = [n0, n1, Num 0],
                   rows = map (\<lambda>(p, r). (Num (real p), r)) (enumerate 0 long)\<rparr>)"

text \<open>
  \<^verbatim>\<open>pd.merge(x, y, on=keys)\<close>, an inner join: a row for every pair of a row of \<^verbatim>\<open>x\<close> and a
  row of \<^verbatim>\<open>y\<close> that agree on the key columns, in the order of \<^verbatim>\<open>x\<close>; the columns of \<^verbatim>\<open>x\<close>
  followed by the columns of \<^verbatim>\<open>y\<close> that are no keys, a string label carried by both
  sides being suffixed \<^verbatim>\<open>_x\<close> and \<^verbatim>\<open>_y\<close>.  A key that is no column raises \<^verbatim>\<open>KeyError\<close>.
\<close>

fun suffixed :: "string \<Rightarrow> cell \<Rightarrow> cell" where
  "suffixed sfx (Str n) = Str (n @ sfx)"
| "suffixed sfx c = c"

definition pd_merge :: "cell list \<Rightarrow> frame \<Rightarrow> frame \<Rightarrow> error + frame" where
  "pd_merge keys x y =
     (if \<not> (set keys \<subseteq> set (columns x) \<and> set keys \<subseteq> set (columns y)) then Inl KeyError
      else
        let xcols = map (\<lambda>c. if c \<notin> set keys \<and> c \<in> set (columns y) then suffixed ''_x'' c else c)
                      (columns x);
            ycols = map (\<lambda>c. if c \<in> set (columns x) then suffixed ''_y'' c else c)
                      (filter (\<lambda>c. c \<notin> set keys) (columns y));
            joined = concat (map (\<lambda>(i, r).
                       map (\<lambda>(j, s). r @ map snd (filter (\<lambda>(c, v). c \<notin> set keys) (zip (columns y) s)))
                         (filter (\<lambda>(j, s). map (\<lambda>k. column_cell (columns y) k s) keys
                                           = map (\<lambda>k. column_cell (columns x) k r) keys)
                            (rows y)))
                       (rows x))
        in Inr \<lparr>index_name = None, columns_name = None, columns = xcols @ ycols,
                 rows = map (\<lambda>(p, r). (Num (real p), r)) (enumerate 0 joined)\<rparr>)"

text \<open>
  \<^verbatim>\<open>functools.reduce(function, iterable)\<close>.  The iterable is a required positional
  argument: a call with the function alone raises \<^verbatim>\<open>TypeError\<close> (``reduce expected at
  least 2 arguments, got 1''), as does an empty iterable without initial value.  The
  optional second argument of the model is the iterable when the call passes one.
\<close>

fun fold_err :: "('a \<Rightarrow> 'a \<Rightarrow> error + 'a) \<Rightarrow> 'a \<Rightarrow> 'a list \<Rightarrow> error + 'a" where
  "fold_err f acc [] = Inr acc"
| "fold_err f acc (y # ys) = (case f acc y of Inl e \<Rightarrow> Inl e | Inr acc' \<Rightarrow> fold_err f acc' ys)"

fun reduce :: "('a \<Rightarrow> 'a \<Rightarrow> error + 'a) \<Rightarrow> 'a list option \<Rightarrow> error + 'a" where
  "reduce f None = Inl TypeError"
| "reduce f (Some []) = Inl TypeError"
| "reduce f (Some (x # xs)) = fold_err f x xs"

text \<open>Decimal digits of a number, for the default names \<^verbatim>\<open>f"fac{i+1}"\<close>.\<close>

fun str_nat :: "nat \<Rightarrow> string" where
  "str_nat n = (if n < 10 then [char_of (48 + n)]
                else str_nat (n div 10) @ [char_of (48 + n mod 10)])"

text \<open>
  \<^verbatim>\<open>merge_many(dfs, names=None)\<close>:
  \<^verbatim>\<open>num = len(dfs)\<close>;
  \<^verbatim>\<open>names = [f"fac{i+1}" for i in range(num)]\<close> when no names are given;
  \<^verbatim>\<open>dfs = [i.stack().reset_index() for i in dfs]\<close>;
  \<^verbatim>\<open>dfs = [i.rename(columns={list(i.columns)[-1]: j}) for i, j in zip(dfs, names)]\<close>;
  \<^verbatim>\<open>df = reduce(lambda x, y: pd.merge(x, y, on=["date", "code"]))\<close>;
  \<^verbatim>\<open>return df\<close>.
  The call of \<^verbatim>\<open>reduce\<close> passes the function and nothing else.
\<close>

definition merge_many :: "frame list \<Rightarrow> cell list option \<Rightarrow> error + frame" where
  "merge_many dfs names =
     (let num = length dfs;
          names1 = (case names of
                      None \<Rightarrow> map (\<lambda>i. Str (''fac'' @ str_nat (i + 1))) [0 ..< num]
                    | Some ns \<Rightarrow> ns)
      in bind_err (map_err stack_reset_index dfs) (\<lambda>dfs1.
           let dfs2 = map (\<lambda>(i, j). rename_column (last (columns i)) j i) (zip dfs1 names1)
           in reduce (\<lambda>x y. pd_merge [Str ''date'', Str ''code''] x y) None))"

section \<open>\<^verbatim>\<open>func_two_daily\<close>\<close>

text \<open>
  The joined long table that \<^verbatim>\<open>func_two_daily\<close> works on has the columns \<^verbatim>\<open>date\<close>, \<^verbatim>\<open>code\<close>,
  \<^verbatim>\<open>fac1\<close> and \<^verbatim>\<open>fac2\<close>: a time stamp, an entity identifier and two numbers per row.
\<close>

record obs =
  date :: nat
  code :: string
  fac1 :: real
  fac2 :: real

definition observations :: "frame \<Rightarrow> error + obs list" where
  "observations df =
     (if \<not> set [Str ''date'', Str ''code'', Str ''fac1'', Str ''fac2''] \<subseteq> set (columns df)
      then Inl KeyError
      else map_err (\<lambda>(i, r).
             case (column_cell (columns df) (Str ''date'') r, column_cell (columns df) (Str ''code'') r,
                   column_cell (columns df) (Str ''fac1'') r, column_cell (columns df) (Str ''fac2'') r) of
               (Date d, Str c, Num x, Num y) \<Rightarrow> Inr \<lparr>date = d, code = c, fac1 = x, fac2 = y\<rparr>
             | _ \<Rightarrow> Inl TypeError)
           (rows df))"

text \<open>
  The statistic \<^verbatim>\<open>func\<close> receives the two value windows and the time window and returns a
  pair, which becomes one row of the result array.  It is taken to be a pure function
  that does not raise.
\<close>

type_synonym stat = "real list \<Rightarrow> real list \<Rightarrow> nat list \<Rightarrow> cell \<times> cell"

text \<open>
  \<^verbatim>\<open>numpy_ext.rolling_apply(func, window, a, b, c, n_jobs=6)\<close>.  The arrays must have one
  length, which must not be below the window (\<^verbatim>\<open>ValueError\<close>).  The windows are the slices
  \<^verbatim>\<open>[s : s + window]\<close> for \<^verbatim>\<open>s\<close> in \<^verbatim>\<open>range(size - (window - 1))\<close>; the function is applied to
  each, and \<^verbatim>\<open>window - 1\<close> rows of \<^verbatim>\<open>nan\<close> are put in front of the results.  For a window
  that is not positive the slices become empty and taking their first and last position
  raises \<^verbatim>\<open>IndexError\<close>.
\<close>

definition rolling_apply ::
  "stat \<Rightarrow> int \<Rightarrow> real list \<Rightarrow> real list \<Rightarrow> nat list \<Rightarrow> error + (cell \<times> cell) list" where
  "rolling_apply func window a b c =
     (if length a \<noteq> length b \<or> length a \<noteq> length c then Inl ValueError
      else if int (length a) < window then Inl ValueError
      else if window \<le> 0 then Inl IndexError
      else let w = nat window
           in Inr (replicate (w - 1) (NaN, NaN) @
                   map (\<lambda>s. func (take w (drop s a)) (take w (drop s b)) (take w (drop s c)))
                     [0 ..< length a - (w - 1)]))"

text \<open>
  \<^verbatim>\<open>df.sort_values(["date"])\<close> hands the \<^verbatim>\<open>date\<close> column to numpy's quicksort, the default
  of pandas, which is not a stable sort: beyond a few rows the places of rows with equal
  dates are decided by the algorithm.  That algorithm is not modelled.  It is the
  parameter \<open>quicksort\<close>, of which the model uses this much: its result consists of the
  rows of the frame in ascending order of date.  (For a parameter that returns
  anything else the stable sort stands in.)  On a table of at most sixteen rows numpy's
  quicksort is an insertion sort, which leaves rows with equal dates in the order of the
  input, as \<^const>\<open>sort_key\<close> does.
\<close>

definition sort_values :: "(obs list \<Rightarrow> obs list) \<Rightarrow> obs list \<Rightarrow> obs list" where
  "sort_values quicksort df =
     (let out = quicksort df
      in if mset out = mset df \<and> sorted (map date out) then out else sort_key date df)"

text \<open>
  The nested function \<^verbatim>\<open>func_rolling\<close>, with the variables \<^verbatim>\<open>the_func\<close> and \<^verbatim>\<open>rolling_window\<close>
  of its closure as parameters:
  \<^verbatim>\<open>df = df.sort_values(["date"])\<close>;
  \<^verbatim>\<open>if df.shape[0] > rolling_window:\<close>
  \<^verbatim>\<open>df = npext.rolling_apply(the_func, rolling_window, df.fac1, df.fac2, df.date, n_jobs=6)\<close>;
  \<^verbatim>\<open>return df\<close>.
  Without the \<^verbatim>\<open>if\<close> branch the function returns \<^verbatim>\<open>None\<close>.
\<close>

definition func_rolling ::
  "(obs list \<Rightarrow> obs list) \<Rightarrow> stat \<Rightarrow> int \<Rightarrow> obs list \<Rightarrow> error + (cell \<times> cell) list option" where
  "func_rolling quicksort the_func rolling_window df =
     (let df1 = sort_values quicksort df
      in if int (length df1) > rolling_window
         then (case rolling_apply the_func rolling_window (map fac1 df1) (map fac2 df1) (map date df1) of
                 Inl e \<Rightarrow> Inl e
               | Inr arr \<Rightarrow> Inr (Some arr))
         else Inr None)"

text \<open>
  \<^verbatim>\<open>twins.groupby(["code"]).progress_apply(func_rolling)\<close>: the function is applied to the
  rows of each entity, the entities in ascending order, the rows of an entity in their
  order in the table.  The result is a series indexed by entity, holding for each entity
  the array or \<^verbatim>\<open>None\<close> returned; when there is no group, or every group returned \<^verbatim>\<open>None\<close>,
  it is an empty frame, of length zero.
\<close>

definition group_keys :: "obs list \<Rightarrow> string list" where
  "group_keys twins = sort (remdups (map code twins))"

definition groupby_apply ::
  "(obs list \<Rightarrow> error + 'r option) \<Rightarrow> obs list \<Rightarrow> error + (string \<times> 'r option) list" where
  "groupby_apply f twins =
     bind_err (map_err (\<lambda>c. case f (filter (\<lambda>r. code r = c) twins) of
                              Inl e \<Rightarrow> Inl e
                            | Inr v \<Rightarrow> Inr (c, v))
                 (group_keys twins))
       (\<lambda>res. if list_all (\<lambda>(c, v). v = None) res then Inr [] else Inr res)"

text \<open>
  The body of the loop, \<^verbatim>\<open>pd.DataFrame(corrs.iloc[i]).dropna().assign(code=corrs.index[i])\<close>:
  the frame of an array has the columns \<^verbatim>\<open>0\<close> and \<^verbatim>\<open>1\<close>, the frame of \<^verbatim>\<open>None\<close> is empty and has no
  column; \<^verbatim>\<open>dropna\<close> removes every row with a missing cell; \<^verbatim>\<open>assign\<close> appends the column
  \<^verbatim>\<open>code\<close>.
\<close>

fun group_frame :: "string \<Rightarrow> (cell \<times> cell) list option \<Rightarrow> frame" where
  "group_frame c None =
     \<lparr>index_name = None, columns_name = None, columns = [Str ''code''], rows = []\<rparr>"
| "group_frame c (Some arr) =
     \<lparr>index_name = None, columns_name = None, columns = [Num 0, Num 1, Str ''code''],
      rows = map (\<lambda>(p, (d, v)). (Num (real p), [d, v, Str c]))
               (filter (\<lambda>(p, (d, v)). d \<noteq> NaN \<and> v \<noteq> NaN) (enumerate 0 arr))\<rparr>"

text \<open>
  \<^verbatim>\<open>pd.concat(frames)\<close>: without frames it raises \<^verbatim>\<open>ValueError\<close> (``No objects to
  concatenate'').  Otherwise the rows follow each other; the columns are the labels of
  all frames in the order of their first appearance, and a cell that a frame does not
  have is missing.
\<close>

definition concat_frames :: "frame list \<Rightarrow> error + frame" where
  "concat_frames fs =
     (if fs = [] then Inl ValueError
      else let cols = keep_first (\<lambda>c. c) (concat (map columns fs))
           in Inr \<lparr>index_name = None, columns_name = None, columns = cols,
                    rows = concat (map (\<lambda>f. map (\<lambda>(i, r). (i, map (\<lambda>c. column_cell (columns f) c r) cols))
                                              (rows f)) fs)\<rparr>)"

text \<open>\<^verbatim>\<open>df.columns = labels\<close>: a list of another length raises \<^verbatim>\<open>ValueError\<close>.\<close>

definition set_columns :: "cell list \<Rightarrow> frame \<Rightarrow> error + frame" where
  "set_columns labs df =
     (if length labs \<noteq> length (columns df) then Inl ValueError else Inr (df\<lparr>columns := labs\<rparr>))"

text \<open>
  The wide panel returned by \<^verbatim>\<open>pivot\<close>: its time axis and its entity axis, both without
  repetition and ordered by pandas, are recorded as sets; the cell of a time and an
  entity is the value of the row with that pair, and missing when there is none.
\<close>

record panel =
  p_index :: "cell set"
  p_columns :: "cell set"
  p_values :: "cell \<Rightarrow> cell \<Rightarrow> cell"

text \<open>
  \<^verbatim>\<open>df.pivot(index=i, columns=c, values=v)\<close>: a label that is no column raises \<^verbatim>\<open>KeyError\<close>,
  two rows with the same pair of index and column raise \<^verbatim>\<open>ValueError\<close> (``Index contains
  duplicate entries, cannot reshape'').
\<close>

definition pivot :: "cell \<Rightarrow> cell \<Rightarrow> cell \<Rightarrow> frame \<Rightarrow> error + panel" where
  "pivot ilab clab vlab df =
     (if \<not> set [ilab, clab, vlab] \<subseteq> set (columns df) then Inl KeyError
      else let entries = map (\<lambda>(i, r). ((column_cell (columns df) ilab r, column_cell (columns df) clab r),
                                          column_cell (columns df) vlab r)) (rows df)
           in if \<not> distinct (map fst entries) then Inl ValueError
              else Inr \<lparr>p_index = set (map (fst \<circ> fst) entries),
                        p_columns = set (map (snd \<circ> fst) entries),
                        p_values = (\<lambda>d c. case map_of entries (d, c) of Some v \<Rightarrow> v | None \<Rightarrow> NaN)\<rparr>)"

text \<open>
  Lines 438 to 445 of \<^verbatim>\<open>func_two_daily\<close>, the assembly of the per-entity results:
  the loop over \<^verbatim>\<open>corrs\<close>, \<^verbatim>\<open>cors = pd.concat(cor)\<close>,
  \<^verbatim>\<open>cors.columns = ["date", "corr", "code"]\<close> and
  \<^verbatim>\<open>cors.pivot(index="date", columns="code", values="corr")\<close>.
\<close>

definition assemble :: "(string \<times> (cell \<times> cell) list option) list \<Rightarrow> error + panel" where
  "assemble corrs =
     bind_err (concat_frames (map (\<lambda>(c, a). group_frame c a) corrs)) (\<lambda>cors.
       bind_err (set_columns [Str ''date'', Str ''corr'', Str ''code''] cors)
         (pivot (Str ''date'') (Str ''code'') (Str ''corr'')))"

text \<open>Lines 436 to 445: grouping, rolling evaluation and assembly of a joined table.\<close>

definition rolling_stage ::
  "(obs list \<Rightarrow> obs list) \<Rightarrow> stat \<Rightarrow> int \<Rightarrow> obs list \<Rightarrow> error + panel" where
  "rolling_stage quicksort func rolling_window twins =
     bind_err (groupby_apply (func_rolling quicksort func rolling_window) twins) assemble"

definition func_two_daily ::
  "(obs list \<Rightarrow> obs list) \<Rightarrow> frame \<Rightarrow> frame \<Rightarrow> stat \<Rightarrow> int \<Rightarrow> error + panel" where
  "func_two_daily quicksort df1 df2 func rolling_window =
     bind_err (merge_many [df1, df2] None) (\<lambda>twins.
       bind_err (observations twins) (rolling_stage quicksort func rolling_window))"

text \<open>
  \<^verbatim>\<open>corr_two_daily\<close> is \<^verbatim>\<open>func_two_daily\<close> with the statistic \<^verbatim>\<open>corr_in\<close>, which returns
  \<^verbatim>\<open>c.iloc[-1], np.corrcoef(a, b)[0, 1]\<close>: the last time of the window and the Pearson
  correlation of the two value windows.  (\<^verbatim>\<open>c.iloc[-1]\<close> would raise on an empty window;
  \<^verbatim>\<open>rolling_apply\<close> passes none.)  The correlation is computed over the reals, where it is
  undefined, \<^verbatim>\<open>nan\<close>, exactly when one of the windows is constant.  In floating point a
  constant window can leave deviations from the mean that are tiny instead of zero,
  and then a tiny correlation instead of \<^verbatim>\<open>nan\<close>; the definition is used below only on
  windows of small whole numbers, whose sums and means are exact in floating point.
\<close>

definition mean :: "real list \<Rightarrow> real" where
  "mean xs = sum_list xs / real (length xs)"

definition corrcoef :: "real list \<Rightarrow> real list \<Rightarrow> cell" where
  "corrcoef a b =
     (let da = map (\<lambda>x. x - mean a) a; db = map (\<lambda>y. y - mean b) b;
          saa = sum_list (map (\<lambda>x. x * x) da); sbb = sum_list (map (\<lambda>y. y * y) db);
          sab = sum_list (map (\<lambda>(x, y). x * y) (zip da db))
      in if saa = 0 \<or> sbb = 0 then NaN else Num (sab / sqrt (saa * sbb)))"

definition corr_in :: stat where
  "corr_in a b c = ((case c of [] \<Rightarrow> NaN | _ \<Rightarrow> Date (last c)), corrcoef a b)"

definition corr_two_daily ::
  "(obs list \<Rightarrow> obs list) \<Rightarrow> frame \<Rightarrow> frame \<Rightarrow> int \<Rightarrow> error + panel" where
  "corr_two_daily quicksort df1 df2 rolling_window =
     func_two_daily quicksort df1 df2 corr_in rolling_window"

text \<open>
  A second statistic, \<^verbatim>\<open>lambda a, b, c: (c.iloc[-1], a.sum() * 100 + b.sum())\<close>.
\<close>

definition sum_stat :: stat where
  "sum_stat a b c = ((case c of [] \<Rightarrow> NaN | _ \<Rightarrow> Date (last c)), Num (sum_list a * 100 + sum_list b))"

section \<open>Notions used in the statements\<close>

text \<open>
  The rows that the loop body produces for one entity: \<^verbatim>\<open>func_rolling\<close> on the rows of the
  entity, then the frame built from its result.
\<close>

definition entity_rows ::
  "(obs list \<Rightarrow> obs list) \<Rightarrow> stat \<Rightarrow> int \<Rightarrow> string \<Rightarrow> obs list \<Rightarrow> error + cell list list" where
  "entity_rows quicksort func rolling_window c df =
     (case func_rolling quicksort func rolling_window df of
        Inl e \<Rightarrow> Inl e
      | Inr res \<Rightarrow> Inr (map snd (rows (group_frame c res))))"

text \<open>The statistic on the window of \<open>w\<close> consecutive rows of a table that starts at row \<open>s\<close>.\<close>

definition window_result :: "stat \<Rightarrow> nat \<Rightarrow> obs list \<Rightarrow> nat \<Rightarrow> cell \<times> cell" where
  "window_result func w df s =
     func (take w (drop s (map fac1 df))) (take w (drop s (map fac2 df)))
          (take w (drop s (map date df)))"

text \<open>
  The result rows that survive \<^verbatim>\<open>dropna\<close>, as triples of time, entity and value, in the
  order of the loop.
\<close>

definition kept_rows ::
  "(string \<times> (cell \<times> cell) list option) list \<Rightarrow> (cell \<times> string \<times> cell) list" where
  "kept_rows corrs =
     concat (map (\<lambda>(c, a). case a of
                     None \<Rightarrow> []
                   | Some arr \<Rightarrow> map (\<lambda>(d, v). (d, c, v))
                                   (filter (\<lambda>(d, v). d \<noteq> NaN \<and> v \<noteq> NaN) arr))
               corrs)"

text \<open>
  Two abbreviations for the proofs about the assembly: the columns of a frame brought in
  the order \<^verbatim>\<open>0\<close>, \<^verbatim>\<open>1\<close>, \<^verbatim>\<open>code\<close>, and the pair of index and column with its value that
  \<^verbatim>\<open>pivot\<close> reads from a row under the labels \<^verbatim>\<open>date\<close>, \<^verbatim>\<open>corr\<close>, \<^verbatim>\<open>code\<close>.
\<close>

definition realign :: "frame \<Rightarrow> cell \<times> cell list \<Rightarrow> cell \<times> cell list" where
  "realign f = (\<lambda>(i, r). (i, map (\<lambda>c. column_cell (columns f) c r) [Num 0, Num 1, Str ''code'']))"

definition pivot_entry :: "cell \<times> cell list \<Rightarrow> (cell \<times> cell) \<times> cell" where
  "pivot_entry = (\<lambda>(i, r).
     ((column_cell [Str ''date'', Str ''corr'', Str ''code''] (Str ''date'') r,
       column_cell [Str ''date'', Str ''corr'', Str ''code''] (Str ''code'') r),
      column_cell [Str ''date'', Str ''corr'', Str ''code''] (Str ''corr'') r))"

text \<open>Small tables used to exercise the theorems below.\<close>

definition dup_table :: frame where
  "dup_table = \<lparr>index_name = None, columns_name = None, columns = [Str ''A'', Str ''B''],
     rows = [(Date 1, [Num 1, Num 2]), (Date 2, [Num 3, Num 4]), (Date 1, [Num 5, Num 6]),
             (Date 3, [Num 7, NaN]), (Date 2, [Num 8, Num 9])]\<rparr>"

definition time_table :: frame where
  "time_table = \<lparr>index_name = Some (Str ''time''), columns_name = Some (Str ''code''), columns = [Str ''A''],
     rows = [(Date 1, [Num 1]), (Date 2, [Num 2])]\<rparr>"

definition date_column_table :: frame where
  "date_column_table = \<lparr>index_name = None, columns_name = None,
     columns = [Str ''date'', Str ''B''],
     rows = [(Date 1, [Num 1, Num 2]), (Date 1, [Num 5, Num 4]), (Date 1, [Num 1, Num 6])]\<rparr>"

definition seq_table :: frame where
  "seq_table = \<lparr>index_name = Some (Str ''date''), columns_name = None, columns = [Str ''A'', Str ''B''],
     rows = [(Date 1, [Seq [Num 1, Num 2], Seq [Num 3]]), (Date 2, [NaN, Str ''xy''])]\<rparr>"

text \<open>
  Two wide panels with index \<^verbatim>\<open>date\<close> and column axis \<^verbatim>\<open>code\<close>; a single entity observed on
  25 consecutive days; an entity with two rows at the same time, in two row orders; an
  entity with three distinct times; a joined table whose first entity has a single row;
  per-entity results with missing values, and with a repeated time.
\<close>

definition panel_x :: frame where
  "panel_x = \<lparr>index_name = Some (Str ''date''), columns_name = Some (Str ''code''),
     columns = [Str ''A'', Str ''B''],
     rows = [(Date 1, [Num 1, Num 2]), (Date 2, [Num 3, NaN])]\<rparr>"

definition panel_y :: frame where
  "panel_y = \<lparr>index_name = Some (Str ''date''), columns_name = Some (Str ''code''),
     columns = [Str ''A'', Str ''B''],
     rows = [(Date 1, [Num 5, Num 6]), (Date 2, [Num 7, Num 8])]\<rparr>"

definition scenario25 :: "obs list" where
  "scenario25 = map (\<lambda>i. \<lparr>date = i, code = ''A'', fac1 = real i, fac2 = real (i * i)\<rparr>) [1 ..< 26]"

definition tied :: "obs list" where
  "tied = [\<lparr>date = 1, code = ''A'', fac1 = 1, fac2 = 7\<rparr>,
           \<lparr>date = 1, code = ''A'', fac1 = 2, fac2 = 1\<rparr>,
           \<lparr>date = 2, code = ''A'', fac1 = 3, fac2 = 7\<rparr>]"

definition tied_shuffled :: "obs list" where
  "tied_shuffled = [\<lparr>date = 1, code = ''A'', fac1 = 2, fac2 = 1\<rparr>,
                    \<lparr>date = 1, code = ''A'', fac1 = 1, fac2 = 7\<rparr>,
                    \<lparr>date = 2, code = ''A'', fac1 = 3, fac2 = 7\<rparr>]"

definition three_days :: "obs list" where
  "three_days = [\<lparr>date = 3, code = ''A'', fac1 = 1, fac2 = 7\<rparr>,
                 \<lparr>date = 1, code = ''A'', fac1 = 2, fac2 = 1\<rparr>,
                 \<lparr>date = 2, code = ''A'', fac1 = 3, fac2 = 7\<rparr>]"

definition short_first :: "obs list" where
  "short_first = [\<lparr>date = 1, code = ''A'', fac1 = 1, fac2 = 1\<rparr>,
                  \<lparr>date = 1, code = ''B'', fac1 = 1, fac2 = 2\<rparr>,
                  \<lparr>date = 2, code = ''B'', fac1 = 2, fac2 = 1\<rparr>,
                  \<lparr>date = 3, code = ''B'', fac1 = 3, fac2 = 5\<rparr>]"

definition gappy_results :: "(string \<times> (cell \<times> cell) list option) list" where
  "gappy_results =
     [(''A'', Some [(NaN, NaN), (Date 2, Num 1), (Date 3, NaN)]),
      (''B'', None),
      (''C'', Some [(NaN, NaN), (Date 2, Num 5), (Date 4, Num 6)])]"

section \<open>Proofs\<close>

lemma map_err_total:
  assumes "\<And>x. x \<in> set xs \<Longrightarrow> f x = Inr (g x)"
  shows "map_err f xs = Inr (map g xs)"
  using assms by (induction xs) simp_all

lemma get_value_single_total: "get_value_single x n = Inr (nth_or_nan x n)"
  by (cases "getitem x n"; cases "projl (getitem x n)")
     (simp_all add: get_value_single_def nth_or_nan_def)


subsection \<open>Properties of \<^verbatim>\<open>drop_duplicates_index\<close>\<close>

lemma unmarked_Cons [simp]:
  "unmarked (d # ds) (x # xs) = (if d then unmarked ds xs else x # unmarked ds xs)"
  by (simp add: unmarked_def)

lemma unmarked_Nil [simp]: "unmarked ds [] = []" "unmarked [] xs = []"
  by (simp_all add: unmarked_def)

lemma unmarked_transport:
  assumes "\<And>x. x \<in> set xs \<Longrightarrow> key' (g x) = c (key x)" and "inj c"
    and "set seen' = c ` set seen"
  shows "unmarked (duplicated_from seen' (map key' (map g xs))) (map g xs)
       = map g (unmarked (duplicated_from seen (map key xs)) xs)"
  using assms
proof (induction xs arbitrary: seen seen')
  case Nil
  then show ?case by simp
next
  case (Cons x xs)
  have k: "key' (g x) = c (key x)" using Cons.prems(1) by simp
  have m: "(c (key x) \<in> set seen') = (key x \<in> set seen)"
    using Cons.prems(2,3) by (auto simp: inj_def)
  have s: "set (c (key x) # seen') = c ` set (key x # seen)"
    using Cons.prems(3) by simp
  have ih: "unmarked (duplicated_from (c (key x) # seen') (map key' (map g xs))) (map g xs)
       = map g (unmarked (duplicated_from (key x # seen) (map key xs)) xs)"
    by (rule Cons.IH) (use Cons.prems s in auto)
  show ?case using k m ih by simp
qed

lemma unmarked_nths:
  "unmarked (duplicated_from seen (map key xs)) xs
     = nths xs {i. key (xs ! i) \<notin> set seen \<and> (\<forall>j<i. key (xs ! j) \<noteq> key (xs ! i))}"
proof (induction xs arbitrary: seen)
  case Nil
  then show ?case by simp
next
  case (Cons x xs)
  have A: "{j. Suc j \<in> {i. key ((x # xs) ! i) \<notin> set seen \<and> (\<forall>j<i. key ((x # xs) ! j) \<noteq> key ((x # xs) ! i))}}
         = {i. key (xs ! i) \<notin> set (key x # seen) \<and> (\<forall>j<i. key (xs ! j) \<noteq> key (xs ! i))}"
    by (auto simp: less_Suc_eq_0_disj)
  show ?case
    unfolding nths_Cons A by (simp add: Cons.IH)
qed

lemma unmarked_distinct_id:
  "distinct (map key xs) \<Longrightarrow> set (map key xs) \<inter> set seen = {}
     \<Longrightarrow> unmarked (duplicated_from seen (map key xs)) xs = xs"
  by (induction xs arbitrary: seen) auto

lemma unmarked_keys:
  "set (map key (unmarked (duplicated_from seen (map key xs)) xs)) = set (map key xs) - set seen"
  by (induction xs arbitrary: seen) auto

lemma unmarked_distinct:
  "distinct (map key (unmarked (duplicated_from seen (map key xs)) xs))"
proof (induction xs arbitrary: seen)
  case Nil
  then show ?case by simp
next
  case (Cons x xs)
  have "key x \<notin> set (map key (unmarked (duplicated_from (key x # seen) (map key xs)) xs))"
    unfolding unmarked_keys by simp
  then show ?case using Cons.IH by simp
qed

lemma keep_first_nths:
  "keep_first key xs = nths xs {i. \<forall>j<i. key (xs ! j) \<noteq> key (xs ! i)}"
  using unmarked_nths [of "[]" key xs] by (simp add: keep_first_def duplicated_def)

lemma keep_first_distinct: "distinct (map key (keep_first key xs))"
  by (simp add: keep_first_def duplicated_def unmarked_distinct)

lemma keep_first_id: "distinct (map key xs) \<Longrightarrow> keep_first key xs = xs"
  by (simp add: keep_first_def duplicated_def unmarked_distinct_id)

lemma keep_first_idem: "keep_first key (keep_first key xs) = keep_first key xs"
  by (rule keep_first_id) (rule keep_first_distinct)


lemma label_positions_Cons:
  "label_positions labs (c # cs)
     = (if c \<in> set labs then [0] else []) @ map Suc (label_positions labs cs)"
proof -
  have u: "[0 ..< length (c # cs)] = 0 # map Suc [0 ..< length cs]"
    by (simp add: upt_conv_Cons map_Suc_upt del: upt_Suc)
  show ?thesis
    unfolding label_positions_def u by (simp add: filter_map comp_def)
qed

lemma label_positions_empty:
  "label_positions [lab] cols = [] \<longleftrightarrow> lab \<notin> set cols"
  by (induction cols) (simp_all add: label_positions_Cons, simp add: label_positions_def)

lemma subset_key_first:
  "lab \<notin> set cols \<Longrightarrow> subset_key [lab] (lab # cols) (i # r) = [i]"
  using label_positions_empty [of lab cols]
  by (simp add: subset_key_def label_positions_Cons cell_at_def)

lemma set_index_first_column:
  assumes "lab \<notin> set cols"
  shows "set_index td lab \<lparr>index_name = n, columns_name = m, columns = lab # cols, rows = rs\<rparr>
       = Inr \<lparr>index_name = Some lab, columns_name = m, columns = cols,
              rows = map (\<lambda>(i, r). (cell_at r 0, drop_nth 0 r)) rs\<rparr>"
  using assms label_positions_empty [of lab cols]
  by (simp add: set_index_def label_positions_Cons drop_nth_def)

lemma set_index_back:
  "map (\<lambda>(i, r). (cell_at r 0, drop_nth 0 r)) (map (\<lambda>(p, (i, r)). (Num (real p), i # r)) xs) = map snd xs"
  by (induction xs) (auto simp: cell_at_def drop_nth_def)

text \<open>
  The frame that reaches \<^verbatim>\<open>set_index\<close> when \<^verbatim>\<open>reset_index\<close> has not raised: the index is a
  first column \<^verbatim>\<open>date\<close> and the rows are deduplicated on all columns labelled \<^verbatim>\<open>date\<close>.
\<close>

lemma drop_duplicates_index_steps:
  assumes n: "index_label t \<notin> set (columns t)"
  defines "cs \<equiv> map (\<lambda>c. if c = index_label t then Str ''date'' else c) (columns t)"
  defines "rs \<equiv> map (\<lambda>(p, (i, r)). (Num (real p), i # r)) (enumerate 0 (rows t))"
  shows "drop_duplicates_index td t
       = set_index td (Str ''date'')
           \<lparr>index_name = None, columns_name = columns_name t, columns = Str ''date'' # cs,
            rows = unmarked (duplicated_from [] (map (\<lambda>(i, r). subset_key [Str ''date''] (Str ''date'' # cs) r) rs)) rs\<rparr>"
proof -
  have r: "reset_index t = Inr \<lparr>index_name = None, columns_name = columns_name t,
                               columns = index_label t # columns t, rows = rs\<rparr>"
    using n by (simp add: reset_index_def index_label_def Let_def rs_def)
  have rn: "rename_column (index_label t) (Str ''date'')
              \<lparr>index_name = None, columns_name = columns_name t,
               columns = index_label t # columns t, rows = rs\<rparr>
          = \<lparr>index_name = None, columns_name = columns_name t, columns = Str ''date'' # cs, rows = rs\<rparr>"
    by (simp add: rename_column_def cs_def)
  have dd: "drop_duplicates [Str ''date'']
              \<lparr>index_name = None, columns_name = columns_name t, columns = Str ''date'' # cs, rows = rs\<rparr>
          = Inr \<lparr>index_name = None, columns_name = columns_name t, columns = Str ''date'' # cs,
                 rows = unmarked (duplicated_from [] (map (\<lambda>(i, r). subset_key [Str ''date''] (Str ''date'' # cs) r) rs)) rs\<rparr>"
    by (simp add: drop_duplicates_def duplicated_def)
  show ?thesis
    unfolding drop_duplicates_index_def r bind_err_def
    by (simp only: sum.case frame.simps list.case rn dd)
qed

lemma drop_duplicates_index_ok:
  assumes "no_label_clash t"
  shows "drop_duplicates_index td t
       = Inr \<lparr>index_name = Some (Str ''date''), columns_name = columns_name t,
              columns = columns t,
              rows = keep_first fst (rows t)\<rparr>"
proof -
  let ?d = "Str ''date''"
  let ?g = "\<lambda>(p, (i, r)). (Num (real p), i # r)"
  let ?e = "enumerate 0 (rows t)"
  let ?k = "\<lambda>(i, r). subset_key [?d] (?d # columns t) r"
  from assms have n: "index_label t \<notin> set (columns t)" and d: "?d \<notin> set (columns t)"
    by (simp_all add: no_label_clash_def)
  have c: "map (\<lambda>c. if c = index_label t then ?d else c) (columns t) = columns t"
    using n by (intro map_idI) auto
  have tr1: "unmarked (duplicated_from [] (map ?k (map ?g ?e))) (map ?g ?e)
           = map ?g (unmarked (duplicated_from [] (map (\<lambda>(p, (i, r)). i) ?e)) ?e)"
    by (rule unmarked_transport [where c = "\<lambda>x. [x]"]) (auto simp: subset_key_first d inj_def)
  have tr2: "unmarked (duplicated_from [] (map fst (map snd ?e))) (map snd ?e)
           = map snd (unmarked (duplicated_from [] (map (\<lambda>(p, (i, r)). i) ?e)) ?e)"
    by (rule unmarked_transport [where c = "\<lambda>x. x"]) auto
  have rows': "map (\<lambda>(i, r). (cell_at r 0, drop_nth 0 r))
                 (map ?g (unmarked (duplicated_from [] (map (\<lambda>(p, (i, r)). i) ?e)) ?e))
             = keep_first fst (rows t)"
    unfolding set_index_back keep_first_def duplicated_def
    using tr2 by (simp add: map_snd_enumerate)
  show ?thesis
    unfolding drop_duplicates_index_steps [OF n] c tr1
    by (simp only: set_index_first_column [OF d] rows')
qed

text \<open>
  Whatever the table, a table that is returned has the index name \<^verbatim>\<open>date\<close>, no column
  \<^verbatim>\<open>date\<close> and no index value twice.
\<close>

lemma drop_duplicates_index_returned:
  assumes ret: "drop_duplicates_index td t = Inr t'"
  shows "index_name t' = Some (Str ''date'') \<and> Str ''date'' \<notin> set (columns t') \<and>
         distinct (map fst (rows t'))"
proof (cases "index_label t \<in> set (columns t)")
  case True
  then have "drop_duplicates_index td t = Inl ValueError"
    by (simp add: drop_duplicates_index_def reset_index_def index_label_def bind_err_def Let_def)
  with ret show ?thesis by simp
next
  case False
  let ?d = "Str ''date''"
  define cs where "cs = map (\<lambda>c. if c = index_label t then ?d else c) (columns t)"
  define rs where "rs = map (\<lambda>(p, (i, r)). (Num (real p), i # r)) (enumerate 0 (rows t))"
  define key where "key = (\<lambda>(i :: cell, r). subset_key [?d] (?d # cs) r)"
  define rs3 where "rs3 = unmarked (duplicated_from [] (map key rs)) rs"
  define js where "js = label_positions [?d] (?d # cs)"
  have st: "drop_duplicates_index td t
          = set_index td ?d \<lparr>index_name = None, columns_name = columns_name t,
                              columns = ?d # cs, rows = rs3\<rparr>"
    using drop_duplicates_index_steps [OF False, of td]
    by (simp only: cs_def rs_def rs3_def key_def)
  have dk: "distinct (map key rs3)"
    unfolding rs3_def by (rule unmarked_distinct)
  have k: "key (i, r) = map (cell_at r) js" for i r
    by (simp add: key_def subset_key_def js_def)
  show ?thesis
  proof (cases "?d \<in> set cs")
    case False
    with st ret have t': "t' = \<lparr>index_name = Some ?d, columns_name = columns_name t, columns = cs,
                                rows = map (\<lambda>(i, r). (cell_at r 0, drop_nth 0 r)) rs3\<rparr>"
      by (simp add: set_index_first_column)
    have j0: "js = [0]" using False label_positions_empty [of ?d cs]
      by (simp add: js_def label_positions_Cons)
    have "map fst (rows t') = map (\<lambda>k. k ! 0) (map key rs3)"
      by (simp add: t' case_prod_unfold key_def subset_key_def js_def [symmetric] j0 comp_def)
    moreover have "inj_on (\<lambda>k. k ! 0) (set (map key rs3))"
      by (rule inj_onI) (auto simp: k j0)
    ultimately have "distinct (map fst (rows t'))"
      using dk by (simp only: distinct_map)
    with False show ?thesis by (simp add: t')
  next
    case True
    then have "label_positions [?d] cs \<noteq> []" using label_positions_empty [of ?d cs] by simp
    then obtain p ps where p: "label_positions [?d] cs = p # ps"
      by (cases "label_positions [?d] cs") auto
    have jj: "js = 0 # Suc p # map Suc ps"
      by (simp add: js_def label_positions_Cons p)
    have si: "set_index td ?d \<lparr>index_name = None, columns_name = columns_name t,
                               columns = ?d # cs, rows = rs3\<rparr>
            = (if td \<lparr>index_name = None, columns_name = columns_name t, columns = ?d # cs, rows = rs3\<rparr>
               then Inl ValueError
               else Inr \<lparr>index_name = Some ?d, columns_name = columns_name t,
                         columns = filter (\<lambda>c. c \<noteq> ?d) (?d # cs),
                         rows = map (\<lambda>(i, r). (Seq (map (cell_at r) js), other_cells ?d (?d # cs) r)) rs3\<rparr>)"
      unfolding set_index_def frame.simps js_def [symmetric] unfolding jj by simp
    from st ret si have t': "t' = \<lparr>index_name = Some ?d, columns_name = columns_name t,
                         columns = filter (\<lambda>c. c \<noteq> ?d) (?d # cs),
                         rows = map (\<lambda>(i, r). (Seq (map (cell_at r) js), other_cells ?d (?d # cs) r)) rs3\<rparr>"
      by (simp split: if_splits)
    have "map fst (rows t') = map Seq (map key rs3)"
      by (simp add: t' case_prod_unfold key_def subset_key_def js_def [symmetric] comp_def)
    moreover have "inj_on Seq (set (map key rs3))" by (rule inj_onI) simp
    ultimately have "distinct (map fst (rows t'))"
      using dk by (simp only: distinct_map)
    then show ?thesis by (simp add: t')
  qed
qed

lemma no_label_clash_dup_table: "no_label_clash dup_table"
  by (simp add: no_label_clash_def index_label_def dup_table_def)

lemma no_label_clash_time_table: "no_label_clash time_table"
  by (simp add: no_label_clash_def index_label_def time_table_def)

text \<open>
  On a table whose labels do not collide, the deduplicator returns a table with the same
  columns in the same order whose rows are exactly the rows of the input that are the
  first with their time value, whole and in their original order: the sublist of the
  input rows at the positions \<open>i\<close> such that no earlier row has the time value of row \<open>i\<close>.
\<close>

lemma drop_duplicates_index_first_occurrences:
  assumes "no_label_clash t"
  shows "\<exists>t'. drop_duplicates_index td t = Inr t' \<and> columns t' = columns t \<and>
           rows t' = nths (rows t) {i. \<forall>j<i. fst (rows t ! j) \<noteq> fst (rows t ! i)}"
  using drop_duplicates_index_ok [OF assms] by (simp add: keep_first_nths)

lemma date_column_table_result:
  "drop_duplicates_index (\<lambda>df. False) date_column_table
     = Inr \<lparr>index_name = Some (Str ''date''), columns_name = None, columns = [Str ''B''],
            rows = [(Seq [Date 1, Num 1], [Num 2]), (Seq [Date 1, Num 5], [Num 4])]\<rparr>"
  by (simp add: drop_duplicates_index_def reset_index_def rename_column_def drop_duplicates_def
      duplicated_def subset_key_def label_positions_def set_index_def other_cells_def cell_at_def
      bind_err_def date_column_table_def upt_conv_Cons)

text \<open>
  Claim C6 is what the docstring promises (deduplicate by the index, keep the topmost
  row).  The code does otherwise on a table with a data column \<^verbatim>\<open>date\<close>: the index, once a
  column, is renamed \<^verbatim>\<open>date\<close> as well, the rows are deduplicated on the pair of both columns
  and \<^verbatim>\<open>set_index\<close> removes both.  Here three rows share one time value; two of them
  survive, under an index of tuples, and the column \<^verbatim>\<open>date\<close> is lost.
\<close>

theorem drop_duplicates_index_date_column:
  "map fst (rows date_column_table) = [Date 1, Date 1, Date 1] \<and>
   columns date_column_table = [Str ''date'', Str ''B''] \<and>
   drop_duplicates_index (\<lambda>df. False) date_column_table
     = Inr \<lparr>index_name = Some (Str ''date''), columns_name = None, columns = [Str ''B''],
            rows = [(Seq [Date 1, Num 1], [Num 2]), (Seq [Date 1, Num 5], [Num 4])]\<rparr>"
  using date_column_table_result by (simp add: date_column_table_def)

text \<open>
  Claim C7.  Applying the deduplicator to its own result changes nothing: a table that
  it returns is returned unchanged by a second application, and when the first
  application raises, so does the composition.
\<close>

theorem drop_duplicates_index_idempotent:
  "bind_err (drop_duplicates_index td t) (drop_duplicates_index td) = drop_duplicates_index td t"
proof (cases "drop_duplicates_index td t")
  case (Inl e)
  then show ?thesis by (simp add: bind_err_def)
next
  case (Inr t')
  from drop_duplicates_index_returned [OF Inr]
  have n: "index_name t' = Some (Str ''date'')" and c: "Str ''date'' \<notin> set (columns t')"
    and d: "distinct (map fst (rows t'))" by simp_all
  from n c have "no_label_clash t'" by (simp add: no_label_clash_def index_label_def)
  then have "drop_duplicates_index td t'
           = Inr \<lparr>index_name = Some (Str ''date''), columns_name = columns_name t',
                  columns = columns t', rows = keep_first fst (rows t')\<rparr>"
    by (rule drop_duplicates_index_ok)
  also have "\<dots> = Inr t'" using n d by (simp add: keep_first_id)
  finally show ?thesis by (simp add: Inr bind_err_def)
qed

theorem drop_duplicates_index_idempotent_witness:
  "bind_err (drop_duplicates_index (\<lambda>df. False) dup_table) (drop_duplicates_index (\<lambda>df. False))
     = Inr \<lparr>index_name = Some (Str ''date''), columns_name = None,
            columns = [Str ''A'', Str ''B''],
            rows = [(Date 1, [Num 1, Num 2]), (Date 2, [Num 3, Num 4]), (Date 3, [Num 7, NaN])]\<rparr> \<and>
   bind_err (drop_duplicates_index (\<lambda>df. False) date_column_table) (drop_duplicates_index (\<lambda>df. False))
     = Inr \<lparr>index_name = Some (Str ''date''), columns_name = None, columns = [Str ''B''],
            rows = [(Seq [Date 1, Num 1], [Num 2]), (Seq [Date 1, Num 5], [Num 4])]\<rparr>"
proof -
  have "drop_duplicates_index (\<lambda>df. False) dup_table
     = Inr \<lparr>index_name = Some (Str ''date''), columns_name = None,
            columns = [Str ''A'', Str ''B''],
            rows = [(Date 1, [Num 1, Num 2]), (Date 2, [Num 3, Num 4]), (Date 3, [Num 7, NaN])]\<rparr>"
    unfolding drop_duplicates_index_ok [OF no_label_clash_dup_table]
    by (simp add: dup_table_def keep_first_def duplicated_def)
  then show ?thesis
    using drop_duplicates_index_idempotent [of "\<lambda>df. False" dup_table]
      drop_duplicates_index_idempotent [of "\<lambda>df. False" date_column_table]
      date_column_table_result
    by simp
qed

text \<open>
  Claim C8, as stated, fails: the result is not the input when the index of the input is
  not named \<^verbatim>\<open>"date"\<close>, although its time axis has no duplicates.
\<close>

theorem drop_duplicates_index_unchanged_counterexample:
  "distinct (map fst (rows time_table)) \<and>
   drop_duplicates_index (\<lambda>df. False) time_table \<noteq> Inr time_table"
  by (simp add: drop_duplicates_index_ok [OF no_label_clash_time_table]) (simp add: time_table_def)

text \<open>
  Claim C8, amended.  On a table without label collisions whose time axis has no
  duplicates, the deduplicator returns the input with its index named \<^verbatim>\<open>"date"\<close> and
  nothing else changed.
\<close>

theorem drop_duplicates_index_distinct:
  assumes "no_label_clash t" and "distinct (map fst (rows t))"
  shows "drop_duplicates_index td t = Inr (t\<lparr>index_name := Some (Str ''date'')\<rparr>)"
  using assms by (simp add: drop_duplicates_index_ok keep_first_id)

theorem drop_duplicates_index_distinct_witness:
  "no_label_clash time_table \<and> distinct (map fst (rows time_table)) \<and>
   drop_duplicates_index (\<lambda>df. False) time_table
     = Inr \<lparr>index_name = Some (Str ''date''), columns_name = Some (Str ''code''),
            columns = [Str ''A''],
            rows = [(Date 1, [Num 1]), (Date 2, [Num 2])]\<rparr>"
proof -
  have d: "distinct (map fst (rows time_table))" by (simp add: time_table_def)
  show ?thesis
    using drop_duplicates_index_distinct [OF no_label_clash_time_table d, of "\<lambda>df. False"] d
      no_label_clash_time_table
    by (simp add: time_table_def)
qed

text \<open>
  Claim C9.  Whatever the name of the input's index, and whatever its columns, a table
  returned by the deduplicator has its index named \<^verbatim>\<open>"date"\<close>.
\<close>

theorem drop_duplicates_index_named_date:
  assumes "drop_duplicates_index td t = Inr t'"
  shows "index_name t' = Some (Str ''date'')"
  using drop_duplicates_index_returned [OF assms] by simp

theorem drop_duplicates_index_named_date_witness:
  "index_name time_table = Some (Str ''time'') \<and>
   (\<exists>t'. drop_duplicates_index (\<lambda>df. False) time_table = Inr t' \<and>
      index_name t' = Some (Str ''date'')) \<and>
   index_name date_column_table = None \<and>
   (\<exists>t'. drop_duplicates_index (\<lambda>df. False) date_column_table = Inr t' \<and>
      index_name t' = Some (Str ''date''))"
proof -
  obtain t' where t': "drop_duplicates_index (\<lambda>df. False) time_table = Inr t'"
    by (simp add: drop_duplicates_index_ok [OF no_label_clash_time_table])
  obtain u' where u': "drop_duplicates_index (\<lambda>df. False) date_column_table = Inr u'"
    by (simp add: date_column_table_result)
  from drop_duplicates_index_named_date [OF t'] drop_duplicates_index_named_date [OF u'] t' u'
  show ?thesis
    by (simp add: time_table_def date_column_table_def)
qed

subsection \<open>Properties of \<^verbatim>\<open>get_value\<close>\<close>

text \<open>
  Claim C10.  \<^verbatim>\<open>get_value\<close> never raises: it returns the frame with the same index and
  columns in which every cell \<open>x\<close> is replaced by \<^verbatim>\<open>x[n]\<close> when that extraction succeeds
  and by \<^verbatim>\<open>np.nan\<close> when it raises.
\<close>

theorem get_value_total:
  "get_value df n
     = Inr (df\<lparr>rows := map (\<lambda>(i, r). (i, map (\<lambda>x. case getitem x n of Inr v \<Rightarrow> v | Inl e \<Rightarrow> NaN) r))
                          (rows df)\<rparr>)"
proof -
  have inner: "map_err (\<lambda>x. get_value_single x n) r = Inr (map (\<lambda>x. nth_or_nan x n) r)" for r
    by (rule map_err_total) (rule get_value_single_total)
  have "map_err (\<lambda>(i, r). case map_err (\<lambda>x. get_value_single x n) r of
                            Inl e \<Rightarrow> Inl e | Inr r' \<Rightarrow> Inr (i, r')) (rows df)
      = Inr (map (\<lambda>(i, r). (i, map (\<lambda>x. nth_or_nan x n) r)) (rows df))"
    by (rule map_err_total) (auto simp: inner)
  then show ?thesis
    by (simp add: get_value_def applymap_def nth_or_nan_def)
qed

theorem get_value_total_witness:
  "get_value seq_table (-1)
     = Inr \<lparr>index_name = Some (Str ''date''), columns_name = None,
            columns = [Str ''A'', Str ''B''],
            rows = [(Date 1, [Num 2, Num 3]), (Date 2, [NaN, Str ''y''])]\<rparr>
   \<and> get_value seq_table 1
     = Inr \<lparr>index_name = Some (Str ''date''), columns_name = None,
            columns = [Str ''A'', Str ''B''],
            rows = [(Date 1, [Num 2, NaN]), (Date 2, [NaN, Str ''y''])]\<rparr>"
  unfolding get_value_total by (simp add: seq_table_def py_index_def)

subsection \<open>\<^verbatim>\<open>merge_many\<close> and \<^verbatim>\<open>func_two_daily\<close> never return\<close>

lemma merge_many_raises: "\<exists>e. merge_many dfs names = Inl e"
  by (cases "map_err stack_reset_index dfs") (simp_all add: merge_many_def bind_err_def Let_def)

lemma func_two_daily_raises: "\<exists>e. func_two_daily q df1 df2 func w = Inl e"
  using merge_many_raises [of "[df1, df2]" None]
  by (auto simp: func_two_daily_def bind_err_def)

text \<open>
  Claim C2 describes the join that \<^verbatim>\<open>merge_many\<close> is documented to compute.  The code never
  computes it: \<^verbatim>\<open>reduce\<close> is called without the list of frames and raises \<^verbatim>\<open>TypeError\<close>,
  here on two panels that share three (time, entity) pairs.
\<close>

theorem merge_many_type_error: "merge_many [panel_x, panel_y] None = Inl TypeError"
  by (simp add: merge_many_def stack_reset_index_def panel_x_def panel_y_def bind_err_def Let_def)

subsection \<open>The rolling evaluator\<close>

lemma sort_values_mset [simp]: "mset (sort_values q df) = mset df"
  by (simp add: sort_values_def Let_def)

lemma sort_values_sorted [simp]: "sorted (map date (sort_values q df))"
  by (simp add: sort_values_def Let_def)

lemma sort_values_length [simp]: "length (sort_values q df) = length df"
  using sort_values_mset [of q df] by (metis size_mset)

lemma sort_values_distinct:
  assumes "distinct (map date df)"
  shows "sort_values q df = sort_key date df"
proof (rule sym, rule sort_key_inj_key_eq)
  show "mset df = mset (sort_values q df)" by simp
  show "inj_on date (set df)" using assms by (simp add: distinct_map)
  show "sorted (map date (sort_values q df))" by simp
qed

lemma sort_values_stable: "sort_values (sort_key date) df = sort_key date df"
  by (simp add: sort_values_def)

lemma func_rolling_positive:
  assumes "1 \<le> w"
  shows "func_rolling q func w df
       = Inr (if int (length df) > w
              then Some (replicate (nat w - 1) (NaN, NaN) @
                     map (window_result func (nat w) (sort_values q df)) [0 ..< length df - nat w + 1])
              else None)"
proof -
  have "length df - (nat w - 1) = length df - nat w + 1" if "int (length df) > w"
    using that assms by linarith
  then show ?thesis using assms
    by (simp add: func_rolling_def rolling_apply_def Let_def window_result_def [abs_def])
qed

lemma dropna_padding:
  "filter (\<lambda>(d, v). d \<noteq> NaN \<and> v \<noteq> NaN) (replicate m (NaN, NaN) @ xs)
     = filter (\<lambda>(d, v). d \<noteq> NaN \<and> v \<noteq> NaN) xs"
  by (induction m) simp_all

lemma dropna_enumerate:
  "map snd (map (\<lambda>(p, (d, v)). (Num (real p), [d, v, Str c]))
              (filter (\<lambda>(p, (d, v)). d \<noteq> NaN \<and> v \<noteq> NaN) (enumerate n arr)))
     = map (\<lambda>(d, v). [d, v, Str c]) (filter (\<lambda>(d, v). d \<noteq> NaN \<and> v \<noteq> NaN) arr)"
  by (induction arr arbitrary: n) auto

lemma group_frame_rows:
  "map snd (rows (group_frame c (Some arr)))
     = map (\<lambda>(d, v). [d, v, Str c]) (filter (\<lambda>(d, v). d \<noteq> NaN \<and> v \<noteq> NaN) arr)"
  using dropna_enumerate [of c 0 arr] by simp

lemma entity_rows_eq:
  assumes "1 \<le> w"
  shows "entity_rows q func w c df
       = Inr (if int (length df) > w
              then map (\<lambda>(d, v). [d, v, Str c])
                     (filter (\<lambda>(d, v). d \<noteq> NaN \<and> v \<noteq> NaN)
                        (map (window_result func (nat w) (sort_values q df))
                           [0 ..< length df - nat w + 1]))
              else [])"
  unfolding entity_rows_def func_rolling_positive [OF assms]
  by (simp add: group_frame_rows dropna_padding del: group_frame.simps(2))

lemma scenario25_explicit:
  "scenario25 = map (\<lambda>i. \<lparr>date = i, code = ''A'', fac1 = real i, fac2 = real (i * i)\<rparr>)
      [1, 2, 3, 4, 5, 6, 7, 8, 9, 10, 11, 12, 13, 14, 15, 16, 17, 18, 19, 20, 21, 22, 23, 24, 25]"
  unfolding scenario25_def by (simp add: upt_conv_Cons)

lemma scenario25_sorted: "sort_values (sort_key date) scenario25 = scenario25"
  unfolding sort_values_stable
  by (rule sort_key_id_if_sorted) (simp add: scenario25_explicit)

lemma scenario25_length: "length scenario25 = 25"
  by (simp add: scenario25_def)

lemma scenario25_windows: "[0 ..< 25 - nat 20 + 1] = [0, 1, 2, 3, 4, 5]"
  by (simp add: upt_conv_Cons)

lemma scenario25_results:
  "map (window_result corr_in (nat 20) scenario25) [0, 1, 2, 3, 4, 5]
     = map (\<lambda>s. (Date (20 + s), snd (window_result corr_in (nat 20) scenario25 s))) [0, 1, 2, 3, 4, 5]"
  unfolding scenario25_explicit by (simp add: window_result_def corr_in_def)

lemma scenario25_defined:
  "\<forall>s \<in> set [0, 1, 2, 3, 4, 5]. snd (window_result corr_in (nat 20) scenario25 s) \<noteq> NaN"
  unfolding scenario25_explicit
  by (simp add: window_result_def corr_in_def corrcoef_def mean_def Let_def)

text \<open>
  Claim C1, as stated, fails: on a single entity with 25 observations and window 20 the
  evaluator produces six rows, for the windows that end at rows 20 to 25.
\<close>

theorem entity_rows_scenario_counterexample:
  "length scenario25 = 25 \<and>
   (case entity_rows (sort_key date) corr_in 20 ''A'' scenario25 of
      Inr rs \<Rightarrow> map hd rs | Inl e \<Rightarrow> [])
     = [Date 20, Date 21, Date 22, Date 23, Date 24, Date 25]"
proof -
  have one: "(1::int) \<le> 20" by simp
  show ?thesis
    unfolding entity_rows_eq [OF one] scenario25_sorted scenario25_length
      scenario25_windows scenario25_results
    using scenario25_defined by simp
qed

text \<open>
  Claim C1, amended.  The sort puts the \<open>k\<close> rows of an entity in ascending order of
  time, rows with equal times in the order that the sort leaves them in.  For a window
  \<open>w \<ge> 1\<close> the evaluator produces no row when \<open>k \<le> w\<close>; when \<open>k > w\<close> it evaluates the
  statistic on the \<open>k - w + 1\<close> windows of \<open>w\<close> consecutive rows of that order, and produces
  one row for each window whose result has no missing component, in window order:
  exactly \<open>k - w + 1\<close> rows when the statistic is defined on every window.
\<close>

theorem entity_rows_window_count:
  assumes "1 \<le> w"
  shows "mset (sort_values q df) = mset df \<and> sorted (map date (sort_values q df)) \<and>
         (\<exists>rs. entity_rows q func w c df = Inr rs \<and>
           rs = (if int (length df) > w
                 then map (\<lambda>(d, v). [d, v, Str c])
                        (filter (\<lambda>(d, v). d \<noteq> NaN \<and> v \<noteq> NaN)
                           (map (window_result func (nat w) (sort_values q df))
                              [0 ..< length df - nat w + 1]))
                 else []) \<and>
           ((\<forall>s < length df - nat w + 1.
                fst (window_result func (nat w) (sort_values q df) s) \<noteq> NaN \<and>
                snd (window_result func (nat w) (sort_values q df) s) \<noteq> NaN)
            \<longrightarrow> length rs = (if int (length df) > w then length df - nat w + 1 else 0)))"
proof -
  let ?ws = "map (window_result func (nat w) (sort_values q df)) [0 ..< length df - nat w + 1]"
  have "filter (\<lambda>(d, v). d \<noteq> NaN \<and> v \<noteq> NaN) ?ws = ?ws"
    if "\<forall>s < length df - nat w + 1.
          fst (window_result func (nat w) (sort_values q df) s) \<noteq> NaN \<and>
          snd (window_result func (nat w) (sort_values q df) s) \<noteq> NaN"
    using that by (intro filter_True) (auto simp: case_prod_unfold)
  then show ?thesis
    unfolding entity_rows_eq [OF assms] by (auto simp del: upt_Suc)
qed

theorem entity_rows_window_count_witness:
  "(1::int) \<le> 20 \<and>
   (\<exists>rs. entity_rows (sort_key date) corr_in 20 ''A'' scenario25 = Inr rs \<and> length rs = 6 \<and>
      map hd rs = [Date 20, Date 21, Date 22, Date 23, Date 24, Date 25]) \<and>
   entity_rows (sort_key date) corr_in 20 ''A'' (take 20 scenario25) = Inr []"
proof -
  have d: "\<forall>s < length scenario25 - nat 20 + 1.
             fst (window_result corr_in (nat 20) (sort_values (sort_key date) scenario25) s) \<noteq> NaN \<and>
             snd (window_result corr_in (nat 20) (sort_values (sort_key date) scenario25) s) \<noteq> NaN"
  proof (intro allI impI)
    fix s assume "s < length scenario25 - nat 20 + 1"
    then have s: "s \<in> set [0, 1, 2, 3, 4, 5]"
      unfolding scenario25_length by auto
    then have "window_result corr_in (nat 20) scenario25 s
             = (Date (20 + s), snd (window_result corr_in (nat 20) scenario25 s))"
      using scenario25_results by auto
    then have "fst (window_result corr_in (nat 20) scenario25 s) \<noteq> NaN"
      by (metis cell.distinct(3) fst_conv)
    with s scenario25_defined
    show "fst (window_result corr_in (nat 20) (sort_values (sort_key date) scenario25) s) \<noteq> NaN \<and>
          snd (window_result corr_in (nat 20) (sort_values (sort_key date) scenario25) s) \<noteq> NaN"
      unfolding scenario25_sorted by blast
  qed
  let ?ws = "map (window_result corr_in (nat 20) (sort_values (sort_key date) scenario25))
               [0 ..< length scenario25 - nat 20 + 1]"
  have one: "(1::int) \<le> 20" by simp
  from entity_rows_window_count [OF one, of "sort_key date" scenario25 corr_in "''A''"]
  obtain rs where rs: "entity_rows (sort_key date) corr_in 20 ''A'' scenario25 = Inr rs"
    and eq: "rs = (if int (length scenario25) > 20
                   then map (\<lambda>(d, v). [d, v, Str ''A''])
                          (filter (\<lambda>(d, v). d \<noteq> NaN \<and> v \<noteq> NaN) ?ws)
                   else [])"
    and len: "(\<forall>s < length scenario25 - nat 20 + 1.
                fst (window_result corr_in (nat 20) (sort_values (sort_key date) scenario25) s) \<noteq> NaN \<and>
                snd (window_result corr_in (nat 20) (sort_values (sort_key date) scenario25) s) \<noteq> NaN)
              \<longrightarrow> length rs = (if int (length scenario25) > 20
                               then length scenario25 - nat 20 + 1 else 0)"
    by (elim exE conjE)
  from len d have l: "length rs = 6" by (simp add: scenario25_length)
  have "rs = map (\<lambda>(d, v). [d, v, Str ''A'']) (filter (\<lambda>(d, v). d \<noteq> NaN \<and> v \<noteq> NaN) ?ws)"
    using eq by (simp add: scenario25_length)
  then have "map hd rs = [Date 20, Date 21, Date 22, Date 23, Date 24, Date 25]"
    unfolding scenario25_sorted scenario25_length scenario25_windows scenario25_results
    using scenario25_defined by simp
  with rs l have a: "\<exists>rs. entity_rows (sort_key date) corr_in 20 ''A'' scenario25 = Inr rs \<and>
      length rs = 6 \<and> map hd rs = [Date 20, Date 21, Date 22, Date 23, Date 24, Date 25]"
    by (intro exI [of _ rs] conjI)
  have b: "entity_rows (sort_key date) corr_in 20 ''A'' (take 20 scenario25) = Inr []"
    using entity_rows_window_count [OF one, of "sort_key date" "take 20 scenario25" corr_in "''A''"]
    by (auto simp: scenario25_length)
  from a b show ?thesis by simp
qed

subsection \<open>A non-positive window\<close>

lemma func_rolling_nonpositive:
  assumes "w \<le> 0" and "df \<noteq> []"
  shows "func_rolling q func w df = Inl IndexError"
proof -
  have "int (length (sort_values q df)) > w" using assms by (cases df) auto
  then show ?thesis using assms(1)
    by (simp add: func_rolling_def Let_def rolling_apply_def)
qed

lemma group_keys_set: "set (group_keys twins) = set (map code twins)"
  by (simp add: group_keys_def)

lemma rolling_stage_empty: "rolling_stage q func w [] = Inl ValueError"
  by (simp add: rolling_stage_def groupby_apply_def group_keys_def bind_err_def assemble_def
      concat_frames_def)

text \<open>
  Claim C5, as stated, fails: there is no error of its own for an invalid window.  On an
  empty table the window 0 raises the \<^verbatim>\<open>ValueError\<close> that the valid window 20 raises as
  well (nothing to concatenate); on a table with rows it is the \<^verbatim>\<open>IndexError\<close> of an empty
  slice inside \<^verbatim>\<open>rolling_apply\<close>.
\<close>

theorem rolling_stage_window_counterexample:
  "rolling_stage (sort_key date) corr_in 0 [] = Inl ValueError \<and>
   rolling_stage (sort_key date) corr_in 20 [] = Inl ValueError \<and>
   func_rolling (sort_key date) corr_in 0 tied = Inl IndexError"
  by (simp add: rolling_stage_empty func_rolling_nonpositive tied_def)

text \<open>
  Claim C5, amended.  For every table and every window \<open>w \<le> 0\<close> the rolling evaluation
  raises and returns nothing: \<^verbatim>\<open>IndexError\<close>, raised by \<^verbatim>\<open>rolling_apply\<close> on the first entity,
  when the table has rows, and \<^verbatim>\<open>ValueError\<close> when it has none.
\<close>

theorem rolling_stage_nonpositive:
  assumes "w \<le> 0"
  shows "rolling_stage q func w twins = Inl (if twins = [] then ValueError else IndexError)"
proof (cases "twins = []")
  case True
  then show ?thesis by (simp add: rolling_stage_empty)
next
  case False
  then have "set (group_keys twins) \<noteq> {}" by (simp add: group_keys_set)
  then obtain c cs where g: "group_keys twins = c # cs" by (cases "group_keys twins") auto
  then have "c \<in> set (map code twins)" using group_keys_set [of twins] by auto
  then have ne: "filter (\<lambda>r. code r = c) twins \<noteq> []"
    by (auto simp: filter_empty_conv)
  have "func_rolling q func w (filter (\<lambda>r. code r = c) twins) = Inl IndexError"
    by (rule func_rolling_nonpositive [OF assms ne])
  then show ?thesis using False
    by (simp add: rolling_stage_def groupby_apply_def g bind_err_def)
qed

theorem rolling_stage_nonpositive_witness:
  "(- 3::int) \<le> 0 \<and> rolling_stage (sort_key date) corr_in (- 3) tied = Inl IndexError \<and>
   rolling_stage (sort_key date) corr_in 0 [] = Inl ValueError"
  using rolling_stage_nonpositive [of "- 3" "sort_key date" corr_in tied]
    rolling_stage_nonpositive [of 0 "sort_key date" corr_in "[]"]
  by (simp add: tied_def)

subsection \<open>The assembly of the results\<close>

lemma unmarked_all_seen:
  "set ys \<subseteq> set seen \<Longrightarrow> unmarked (duplicated_from seen ys) ys = []"
proof (induction ys arbitrary: seen)
  case Nil
  then show ?case by simp
next
  case (Cons y ys)
  then have "set ys \<subseteq> set (y # seen)" by auto
  then have "unmarked (duplicated_from (y # seen) ys) ys = []" by (rule Cons.IH)
  with Cons.prems show ?case by simp
qed

lemma concat_columns:
  "keep_first (\<lambda>c. c) (concat (map columns (map (\<lambda>(c, a). group_frame c a) ((c0, Some arr0) # rest))))
     = [Num 0, Num 1, Str ''code'']"
proof -
  let ?ys = "concat (map columns (map (\<lambda>(c, a). group_frame c a) rest))"
  have "\<forall>f \<in> set (map (\<lambda>(c, a). group_frame c a) rest).
          set (columns f) \<subseteq> set [Str ''code'', Num 1, Num 0]"
  proof
    fix f assume "f \<in> set (map (\<lambda>(c, a). group_frame c a) rest)"
    then obtain c a where "f = group_frame c a" by auto
    then show "set (columns f) \<subseteq> set [Str ''code'', Num 1, Num 0]"
      by (cases a) simp_all
  qed
  then have "set ?ys \<subseteq> set [Str ''code'', Num 1, Num 0]"
    by (simp only: set_concat set_map) blast
  then have "unmarked (duplicated_from [Str ''code'', Num 1, Num 0] ?ys) ?ys = []"
    by (rule unmarked_all_seen)
  then show ?thesis
    by (simp add: keep_first_def duplicated_def)
qed

lemma entries_some:
  "map pivot_entry (map (realign (group_frame c (Some arr0)))
      (map (\<lambda>(p, (d, v)). (Num (real p), [d, v, Str c]))
         (filter (\<lambda>(p, (d, v)). d \<noteq> NaN \<and> v \<noteq> NaN) (enumerate n arr))))
   = map (\<lambda>(d, c, v). ((d, Str c), v))
       (map (\<lambda>(d, v). (d, c, v)) (filter (\<lambda>(d, v). d \<noteq> NaN \<and> v \<noteq> NaN) arr))"
  by (induction arr arbitrary: n) (auto simp: pivot_entry_def realign_def column_cell_def)

lemma entries_group:
  "map pivot_entry (map (realign (group_frame c a)) (rows (group_frame c a)))
   = map (\<lambda>(d, c, v). ((d, Str c), v))
       (case a of None \<Rightarrow> []
        | Some arr \<Rightarrow> map (\<lambda>(d, v). (d, c, v)) (filter (\<lambda>(d, v). d \<noteq> NaN \<and> v \<noteq> NaN) arr))"
proof (cases a)
  case None
  then show ?thesis by simp
next
  case (Some arr)
  show ?thesis unfolding Some using entries_some [of c arr 0 arr] by simp
qed

lemma entries_all:
  "map pivot_entry (concat (map (\<lambda>f. map (realign f) (rows f)) (map (\<lambda>(c, a). group_frame c a) corrs)))
   = map (\<lambda>(d, c, v). ((d, Str c), v)) (kept_rows corrs)"
proof (induction corrs)
  case Nil
  then show ?case by (simp add: kept_rows_def)
next
  case (Cons x corrs)
  obtain c a where x: "x = (c, a)" by (cases x)
  have "kept_rows (x # corrs)
      = (case a of None \<Rightarrow> []
         | Some arr \<Rightarrow> map (\<lambda>(d, v). (d, c, v)) (filter (\<lambda>(d, v). d \<noteq> NaN \<and> v \<noteq> NaN) arr))
        @ kept_rows corrs"
    by (simp add: kept_rows_def x)
  then show ?case
    using Cons.IH entries_group [of c a] by (simp add: x)
qed

lemma assemble_ok:
  assumes "corrs = (c0, Some arr0) # rest"
    and "distinct (map (\<lambda>(d, c, v). (d, c)) (kept_rows corrs))"
  shows "assemble corrs
       = Inr \<lparr>p_index = (\<lambda>(d, c, v). d) ` set (kept_rows corrs),
              p_columns = (\<lambda>(d, c, v). Str c) ` set (kept_rows corrs),
              p_values = (\<lambda>d c. case map_of (map (\<lambda>(d, c, v). ((d, Str c), v)) (kept_rows corrs)) (d, c) of
                                   Some v \<Rightarrow> v | None \<Rightarrow> NaN)\<rparr>"
proof -
  let ?fs = "map (\<lambda>(c, a). group_frame c a) corrs"
  let ?rows = "concat (map (\<lambda>f. map (realign f) (rows f)) ?fs)"
  let ?ent = "map (\<lambda>(d, c, v). ((d, Str c), v)) (kept_rows corrs)"
  have cf: "concat_frames ?fs
          = Inr \<lparr>index_name = None, columns_name = None, columns = [Num 0, Num 1, Str ''code''],
                 rows = ?rows\<rparr>"
    unfolding concat_frames_def assms(1) concat_columns
    by (simp add: realign_def Let_def del: group_frame.simps)
  have sc: "set_columns [Str ''date'', Str ''corr'', Str ''code'']
              \<lparr>index_name = None, columns_name = None, columns = [Num 0, Num 1, Str ''code''], rows = ?rows\<rparr>
          = Inr \<lparr>index_name = None, columns_name = None,
                 columns = [Str ''date'', Str ''corr'', Str ''code''], rows = ?rows\<rparr>"
    by (simp add: set_columns_def)
  have ent: "map (\<lambda>(i, r). ((column_cell [Str ''date'', Str ''corr'', Str ''code''] (Str ''date'') r,
                             column_cell [Str ''date'', Str ''corr'', Str ''code''] (Str ''code'') r),
                            column_cell [Str ''date'', Str ''corr'', Str ''code''] (Str ''corr'') r)) ?rows
           = ?ent"
    using entries_all [of corrs] by (simp add: pivot_entry_def)
  have d: "distinct (map fst ?ent)"
  proof -
    let ?G = "\<lambda>(d, c). (d, Str c)"
    let ?H = "\<lambda>(d, c, v). (d, c)"
    have e: "map fst ?ent = map ?G (map ?H (kept_rows corrs))"
      by (simp add: case_prod_unfold comp_def)
    have "inj_on ?G (set (map ?H (kept_rows corrs)))" by (auto simp: inj_on_def)
    then have "distinct (map ?G (map ?H (kept_rows corrs)))"
      unfolding distinct_map [of ?G "map ?H (kept_rows corrs)"] using assms(2) by blast
    then show ?thesis unfolding e .
  qed
  have i1: "set (map (fst \<circ> fst) ?ent) = (\<lambda>(d, c, v). d) ` set (kept_rows corrs)"
    by (force simp: image_iff)
  have i2: "set (map (snd \<circ> fst) ?ent) = (\<lambda>(d, c, v). Str c) ` set (kept_rows corrs)"
    by (force simp: image_iff)
  have pv: "pivot (Str ''date'') (Str ''code'') (Str ''corr'')
              \<lparr>index_name = None, columns_name = None,
               columns = [Str ''date'', Str ''corr'', Str ''code''], rows = ?rows\<rparr>
          = Inr \<lparr>p_index = (\<lambda>(d, c, v). d) ` set (kept_rows corrs),
                 p_columns = (\<lambda>(d, c, v). Str c) ` set (kept_rows corrs),
                 p_values = (\<lambda>d c. case map_of ?ent (d, c) of Some v \<Rightarrow> v | None \<Rightarrow> NaN)\<rparr>"
    unfolding pivot_def frame.simps ent Let_def
    using d i1 i2 by simp
  show ?thesis
    unfolding assemble_def cf bind_err_def sum.case sc pv ..
qed

lemma assemble_repeated:
  assumes "corrs = (c0, Some arr0) # rest"
    and "\<not> distinct (map (\<lambda>(d, c, v). (d, c)) (kept_rows corrs))"
  shows "assemble corrs = Inl ValueError"
proof -
  let ?fs = "map (\<lambda>(c, a). group_frame c a) corrs"
  let ?rows = "concat (map (\<lambda>f. map (realign f) (rows f)) ?fs)"
  let ?ent = "map (\<lambda>(d, c, v). ((d, Str c), v)) (kept_rows corrs)"
  have cf: "concat_frames ?fs
          = Inr \<lparr>index_name = None, columns_name = None, columns = [Num 0, Num 1, Str ''code''],
                 rows = ?rows\<rparr>"
    unfolding concat_frames_def assms(1) concat_columns
    by (simp add: realign_def Let_def del: group_frame.simps)
  have sc: "set_columns [Str ''date'', Str ''corr'', Str ''code'']
              \<lparr>index_name = None, columns_name = None, columns = [Num 0, Num 1, Str ''code''], rows = ?rows\<rparr>
          = Inr \<lparr>index_name = None, columns_name = None,
                 columns = [Str ''date'', Str ''corr'', Str ''code''], rows = ?rows\<rparr>"
    by (simp add: set_columns_def)
  have ent: "map (\<lambda>(i, r). ((column_cell [Str ''date'', Str ''corr'', Str ''code''] (Str ''date'') r,
                             column_cell [Str ''date'', Str ''corr'', Str ''code''] (Str ''code'') r),
                            column_cell [Str ''date'', Str ''corr'', Str ''code''] (Str ''corr'') r)) ?rows
           = ?ent"
    using entries_all [of corrs] by (simp add: pivot_entry_def)
  have d: "\<not> distinct (map fst ?ent)"
  proof
    let ?G = "\<lambda>(d, c). (d, Str c)"
    let ?H = "\<lambda>(d, c, v). (d, c)"
    assume a: "distinct (map fst ?ent)"
    have e: "map fst ?ent = map ?G (map ?H (kept_rows corrs))"
      by (simp add: case_prod_unfold comp_def)
    from a have "distinct (map ?H (kept_rows corrs))"
      unfolding e distinct_map [of ?G "map ?H (kept_rows corrs)"] by blast
    with assms(2) show False by simp
  qed
  have pv: "pivot (Str ''date'') (Str ''code'') (Str ''corr'')
              \<lparr>index_name = None, columns_name = None,
               columns = [Str ''date'', Str ''corr'', Str ''code''], rows = ?rows\<rparr>
          = Inl ValueError"
    unfolding pivot_def frame.simps ent Let_def
    using d by simp
  show ?thesis
    unfolding assemble_def cf bind_err_def sum.case sc pv ..
qed

lemma gappy_kept:
  "kept_rows gappy_results = [(Date 2, ''A'', Num 1), (Date 2, ''C'', Num 5), (Date 4, ''C'', Num 6)]"
  by (simp add: kept_rows_def gappy_results_def)

text \<open>
  When the first entity has a result array and no entity has two surviving rows for one
  time, the assembly returns a panel, whatever values are missing: the rows with a
  missing time or value are dropped before pivoting, the time axis is the set of times of
  the rows that survive, the entity axis the set of their entities, and each of them is
  found in its cell.
\<close>

lemma assemble_axes:
  assumes "corrs = (c0, Some arr0) # rest"
    and "distinct (map (\<lambda>(d, c, v). (d, c)) (kept_rows corrs))"
  shows "\<exists>p. assemble corrs = Inr p \<and>
           p_index p = {d. \<exists>c v. (d, c, v) \<in> set (kept_rows corrs)} \<and>
           p_columns p = {Str c |c. \<exists>d v. (d, c, v) \<in> set (kept_rows corrs)} \<and>
           (\<forall>(d, c, v) \<in> set (kept_rows corrs). p_values p d (Str c) = v)"
proof -
  let ?ent = "map (\<lambda>(d, c, v). ((d, Str c), v)) (kept_rows corrs)"
  have i: "(\<lambda>(d, c, v). d) ` set (kept_rows corrs) = {d. \<exists>c v. (d, c, v) \<in> set (kept_rows corrs)}"
    by (force simp: image_iff)
  have c: "(\<lambda>(d, c, v). Str c) ` set (kept_rows corrs)
         = {Str c |c. \<exists>d v. (d, c, v) \<in> set (kept_rows corrs)}"
    by (force simp: image_iff)
  have dist: "distinct (map fst ?ent)"
  proof -
    let ?G = "\<lambda>(d, c). (d, Str c)"
    let ?H = "\<lambda>(d, c, v). (d, c)"
    have e: "map fst ?ent = map ?G (map ?H (kept_rows corrs))"
      by (simp add: case_prod_unfold comp_def)
    have "inj_on ?G (set (map ?H (kept_rows corrs)))" by (auto simp: inj_on_def)
    then have "distinct (map ?G (map ?H (kept_rows corrs)))"
      unfolding distinct_map [of ?G "map ?H (kept_rows corrs)"] using assms(2) by blast
    then show ?thesis unfolding e .
  qed
  have v: "map_of ?ent (d, Str c) = Some v" if "(d, c, v) \<in> set (kept_rows corrs)" for d c v
  proof -
    from that have "((d, Str c), v) \<in> set ?ent" by force
    with dist show ?thesis by simp
  qed
  let ?p = "\<lparr>p_index = (\<lambda>(d, c, v). d) ` set (kept_rows corrs),
              p_columns = (\<lambda>(d, c, v). Str c) ` set (kept_rows corrs),
              p_values = (\<lambda>d c. case map_of ?ent (d, c) of Some v \<Rightarrow> v | None \<Rightarrow> NaN)\<rparr>"
  have "assemble corrs = Inr ?p" by (rule assemble_ok [OF assms])
  moreover have "p_index ?p = {d. \<exists>c v. (d, c, v) \<in> set (kept_rows corrs)}"
    by (simp only: panel.simps i)
  moreover have "p_columns ?p = {Str c |c. \<exists>d v. (d, c, v) \<in> set (kept_rows corrs)}"
    by (simp only: panel.simps c)
  moreover have "\<forall>(d, c, v) \<in> set (kept_rows corrs). p_values ?p d (Str c) = v"
  proof
    fix x assume x: "x \<in> set (kept_rows corrs)"
    obtain d c v where e: "x = (d, c, v)" by (cases x)
    from x e have "map_of ?ent (d, Str c) = Some v" by (simp add: v)
    then show "case x of (d, c, v) \<Rightarrow> p_values ?p d (Str c) = v"
      by (simp only: e prod.case panel.simps option.case)
  qed
  ultimately show ?thesis by (intro exI [of _ ?p] conjI)
qed

lemma assemble_gappy:
  "\<exists>p. assemble gappy_results = Inr p \<and> p_index p = {Date 2, Date 4} \<and>
      p_columns p = {Str ''A'', Str ''C''} \<and>
      p_values p (Date 2) (Str ''A'') = Num 1 \<and> p_values p (Date 4) (Str ''C'') = Num 6"
proof -
  have d: "distinct (map (\<lambda>(d, c, v). (d, c)) (kept_rows gappy_results))"
    by (simp add: gappy_kept)
  have g: "gappy_results = (''A'', Some [(NaN, NaN), (Date 2, Num 1), (Date 3, NaN)])
             # [(''B'', None), (''C'', Some [(NaN, NaN), (Date 2, Num 5), (Date 4, Num 6)])]"
    by (simp add: gappy_results_def)
  from assemble_axes [OF g d] obtain p where p: "assemble gappy_results = Inr p"
    "p_index p = {d. \<exists>c v. (d, c, v) \<in> set (kept_rows gappy_results)}"
    "p_columns p = {Str c |c. \<exists>d v. (d, c, v) \<in> set (kept_rows gappy_results)}"
    "\<forall>(d, c, v) \<in> set (kept_rows gappy_results). p_values p d (Str c) = v"
    by (elim exE conjE)
  have "p_index p = {Date 2, Date 4}" unfolding p(2) gappy_kept by auto
  moreover have "p_columns p = {Str ''A'', Str ''C''}" unfolding p(3) gappy_kept by auto
  moreover have "p_values p (Date 2) (Str ''A'') = Num 1" "p_values p (Date 4) (Str ''C'') = Num 6"
    using p(4) unfolding gappy_kept by auto
  ultimately show ?thesis using p(1) by simp
qed

text \<open>
  Without any result array there is nothing to concatenate, and \<^verbatim>\<open>pd.concat\<close> raises.
\<close>

lemma assemble_nothing: "assemble [] = Inl ValueError"
  by (simp add: assemble_def concat_frames_def bind_err_def)

lemma func_rolling_distinct:
  assumes "distinct (map date df)"
  shows "func_rolling q func w df = func_rolling (sort_key date) func w df"
  by (simp add: func_rolling_def sort_values_distinct [OF assms] sort_values_stable)

lemma short_first_results:
  "groupby_apply (func_rolling q sum_stat 2) short_first
     = Inr [(''A'', None), (''B'', Some [(NaN, NaN), (Date 2, Num 303), (Date 3, Num 506)])]"
proof -
  have g: "group_keys short_first = [''A'', ''B'']"
    by (simp add: group_keys_def short_first_def)
  have a: "func_rolling q sum_stat 2 (filter (\<lambda>r. code r = ''A'') short_first) = Inr None"
    by (subst func_rolling_distinct)
       (simp_all add: short_first_def func_rolling_def sort_values_stable)
  have b: "func_rolling q sum_stat 2 (filter (\<lambda>r. code r = ''B'') short_first)
         = Inr (Some [(NaN, NaN), (Date 2, Num 303), (Date 3, Num 506)])"
    by (subst func_rolling_distinct)
       (simp_all add: short_first_def func_rolling_def sort_values_stable rolling_apply_def
          Let_def sum_stat_def upt_conv_Cons)
  show ?thesis
    unfolding groupby_apply_def g by (simp add: a b bind_err_def)
qed

text \<open>
  Claim C4 fails on the code.  The docstring of \<^verbatim>\<open>func_two_daily\<close> promises a result with
  the times on the index and the entities on the columns.  In the table \<^const>\<open>short_first\<close>
  the first entity, \<^verbatim>\<open>A\<close>, has one row and the second, \<^verbatim>\<open>B\<close>, three rows at the times 1, 2
  and 3; the window is 2 and the statistic, \<^const>\<open>sum_stat\<close>, is never missing.  The
  evaluator returns \<^verbatim>\<open>None\<close> for \<^verbatim>\<open>A\<close>, so the frame built for \<^verbatim>\<open>A\<close> has the single column
  \<^verbatim>\<open>code\<close>; the concatenation orders the columns \<^verbatim>\<open>code\<close>, \<^verbatim>\<open>0\<close>, \<^verbatim>\<open>1\<close>, and the relabelling by
  position calls the entities \<^verbatim>\<open>date\<close>, the times \<^verbatim>\<open>corr\<close> and the values \<^verbatim>\<open>code\<close>.  The panel
  returned has the entity \<^verbatim>\<open>B\<close> as its only time, the values 303 and 506 of the statistic as
  its entities, and the times 2 and 3 as its cells.  No two rows of an entity have the
  same time, so this holds whatever the sort does with equal times.
\<close>

theorem rolling_stage_first_entity_short:
  "\<exists>p. rolling_stage quicksort sum_stat 2 short_first = Inr p \<and>
       p_index p = {Str ''B''} \<and> p_columns p = {Num 303, Num 506} \<and>
       p_values p (Str ''B'') (Num 303) = Date 2 \<and> p_values p (Str ''B'') (Num 506) = Date 3"
  unfolding rolling_stage_def short_first_results
  by (simp add: assemble_def concat_frames_def bind_err_def keep_first_def duplicated_def
      set_columns_def pivot_def column_cell_def Let_def)

subsection \<open>Reordering the rows of the input\<close>

lemma map_err_cong:
  "(\<And>x. x \<in> set xs \<Longrightarrow> f x = g x) \<Longrightarrow> map_err f xs = map_err g xs"
  by (induction xs) (simp_all cong: sum.case_cong)

lemma sort_key_perm_distinct:
  assumes "mset xs = mset ys" and "distinct (map f xs)"
  shows "sort_key f xs = sort_key f ys"
proof (rule sort_key_inj_key_eq)
  show "mset xs = mset (sort_key f ys)" using assms(1) by simp
  show "inj_on f (set xs)" using assms(2) by (simp add: distinct_map)
  show "sorted (map f (sort_key f ys))" by simp
qed

lemma func_rolling_perm:
  assumes "mset df' = mset df" and "distinct (map date df)"
  shows "func_rolling q func w df' = func_rolling q func w df"
proof -
  have "mset (map date df') = mset (map date df)" using assms(1) by simp
  then have d: "distinct (map date df')"
    using assms(2) by (metis mset_eq_imp_distinct_iff)
  have "sort_key date df' = sort_key date df"
    using assms(1) d by (rule sort_key_perm_distinct)
  then show ?thesis
    by (simp add: func_rolling_def sort_values_distinct [OF d] sort_values_distinct [OF assms(2)])
qed

lemma group_keys_perm:
  assumes "mset twins' = mset twins"
  shows "group_keys twins' = group_keys twins"
proof -
  have "set (map code twins') = set (map code twins)"
    using assms by (metis mset_map set_mset_mset)
  then show ?thesis
    unfolding group_keys_def sorted_list_of_set_sort_remdups [symmetric] by simp
qed

lemma group_dates_distinct:
  assumes "distinct (map (\<lambda>r. (code r, date r)) twins)"
  shows "distinct (map date (filter (\<lambda>r. code r = c) twins))"
proof -
  have "distinct (map (\<lambda>r. (code r, date r)) (filter (\<lambda>r. code r = c) twins))"
    using assms by (rule distinct_map_filter)
  then have d: "distinct (filter (\<lambda>r. code r = c) twins)"
    and i: "inj_on (\<lambda>r. (code r, date r)) (set (filter (\<lambda>r. code r = c) twins))"
    by (simp_all add: distinct_map)
  have "inj_on date (set (filter (\<lambda>r. code r = c) twins))"
  proof (rule inj_onI)
    fix x y
    assume "x \<in> set (filter (\<lambda>r. code r = c) twins)" "y \<in> set (filter (\<lambda>r. code r = c) twins)"
      "date x = date y"
    moreover from this have "(code x, date x) = (code y, date y)" by simp
    ultimately show "x = y" using i by (meson inj_onD)
  qed
  with d show ?thesis by (simp add: distinct_map)
qed

lemma tied_results:
  "\<exists>x y. groupby_apply (func_rolling (sort_key date) corr_in 2) tied
            = Inr [(''A'', Some [(NaN, NaN), (Date 1, Num x), (Date 2, Num y)])]"
proof -
  have g: "group_keys tied = [''A'']" by (simp add: group_keys_def tied_def)
  have f: "filter (\<lambda>r. code r = ''A'') tied = tied" by (simp add: tied_def)
  have "\<exists>x y. func_rolling (sort_key date) corr_in 2 tied = Inr (Some [(NaN, NaN), (Date 1, Num x), (Date 2, Num y)])"
    by (simp add: tied_def func_rolling_def sort_values_stable rolling_apply_def Let_def corr_in_def corrcoef_def
        mean_def upt_conv_Cons)
  then show ?thesis
    by (auto simp add: groupby_apply_def g f bind_err_def)
qed

lemma tied_shuffled_results:
  "\<exists>x. groupby_apply (func_rolling (sort_key date) corr_in 2) tied_shuffled
          = Inr [(''A'', Some [(NaN, NaN), (Date 1, Num x), (Date 2, NaN)])]"
proof -
  have g: "group_keys tied_shuffled = [''A'']" by (simp add: group_keys_def tied_shuffled_def)
  have f: "filter (\<lambda>r. code r = ''A'') tied_shuffled = tied_shuffled"
    by (simp add: tied_shuffled_def)
  have "\<exists>x. func_rolling (sort_key date) corr_in 2 tied_shuffled = Inr (Some [(NaN, NaN), (Date 1, Num x), (Date 2, NaN)])"
    by (simp add: tied_shuffled_def func_rolling_def sort_values_stable rolling_apply_def Let_def corr_in_def
        corrcoef_def mean_def upt_conv_Cons)
  then show ?thesis
    by (auto simp add: groupby_apply_def g f bind_err_def)
qed

lemma tied_panel: "\<exists>p. rolling_stage (sort_key date) corr_in 2 tied = Inr p \<and> p_index p = {Date 1, Date 2}"
proof -
  from tied_results obtain x y where g: "groupby_apply (func_rolling (sort_key date) corr_in 2) tied
      = Inr [(''A'', Some [(NaN, NaN), (Date 1, Num x), (Date 2, Num y)])]" by blast
  show ?thesis
    unfolding rolling_stage_def g bind_err_def sum.case
    by (subst assemble_ok [OF refl]) (auto simp: kept_rows_def)
qed

lemma tied_shuffled_panel:
  "\<exists>p. rolling_stage (sort_key date) corr_in 2 tied_shuffled = Inr p \<and> p_index p = {Date 1}"
proof -
  from tied_shuffled_results obtain x where g: "groupby_apply (func_rolling (sort_key date) corr_in 2) tied_shuffled
      = Inr [(''A'', Some [(NaN, NaN), (Date 1, Num x), (Date 2, NaN)])]" by blast
  show ?thesis
    unfolding rolling_stage_def g bind_err_def sum.case
    by (subst assemble_ok [OF refl]) (auto simp: kept_rows_def)
qed

text \<open>
  Claim C3, as stated, fails.  In \<^const>\<open>tied\<close> the entity has two rows at time 1 and one at
  time 2, and \<^const>\<open>tied_shuffled\<close> has the two rows of time 1 exchanged.  On three rows
  the sort leaves rows with equal times in the order of the input, as \<^term>\<open>sort_key date\<close>
  does; with it the first table yields results for the times 1 and 2 and the second for
  the time 1 only, the window that ends at time 2 having a constant second factor.
\<close>

theorem rolling_stage_shuffle_counterexample:
  "mset tied_shuffled = mset tied \<and>
   rolling_stage (sort_key date) corr_in 2 tied_shuffled
     \<noteq> rolling_stage (sort_key date) corr_in 2 tied"
proof -
  have "mset tied_shuffled = mset tied" by (simp add: tied_def tied_shuffled_def)
  moreover have "rolling_stage (sort_key date) corr_in 2 tied_shuffled \<noteq> rolling_stage (sort_key date) corr_in 2 tied"
  proof -
    from tied_panel obtain p where p: "rolling_stage (sort_key date) corr_in 2 tied = Inr p"
      "p_index p = {Date 1, Date 2}" by (elim exE conjE)
    from tied_shuffled_panel obtain q where q: "rolling_stage (sort_key date) corr_in 2 tied_shuffled = Inr q"
      "p_index q = {Date 1}" by (elim exE conjE)
    have "Date 2 \<in> p_index p" "Date 2 \<notin> p_index q" unfolding p(2) q(2) by simp_all
    then have "q \<noteq> p" by (metis)
    then show ?thesis unfolding p(1) q(1) by simp
  qed
  ultimately show ?thesis by (rule conjI)
qed

text \<open>
  Claim C3, amended.  For every joined table in which no entity has two rows with the
  same time, the rolling evaluation of any permutation of its rows gives the same
  outcome, result or exception, as the table itself, whatever the sort does with equal
  times.
\<close>

theorem rolling_stage_permutation:
  assumes "mset twins' = mset twins"
    and "distinct (map (\<lambda>r. (code r, date r)) twins)"
  shows "rolling_stage q func w twins' = rolling_stage q func w twins"
proof -
  have "func_rolling q func w (filter (\<lambda>r. code r = c) twins')
      = func_rolling q func w (filter (\<lambda>r. code r = c) twins)" for c
  proof (rule func_rolling_perm)
    show "mset (filter (\<lambda>r. code r = c) twins') = mset (filter (\<lambda>r. code r = c) twins)"
      using assms(1) by simp
    show "distinct (map date (filter (\<lambda>r. code r = c) twins))"
      using assms(2) by (rule group_dates_distinct)
  qed
  then show ?thesis
    by (simp add: rolling_stage_def groupby_apply_def group_keys_perm [OF assms(1)])
qed

theorem rolling_stage_permutation_witness:
  "mset (rev three_days) = mset three_days \<and>
   distinct (map (\<lambda>r. (code r, date r)) three_days) \<and>
   rolling_stage (sort_key date) corr_in 2 (rev three_days)
     = rolling_stage (sort_key date) corr_in 2 three_days"
proof -
  have m: "mset (rev three_days) = mset three_days" by simp
  have d: "distinct (map (\<lambda>r. (code r, date r)) three_days)" by (simp add: three_days_def)
  from rolling_stage_permutation [OF m d] m d show ?thesis by simp
qed


end
